theory Spec2Isabelle
  imports Main "HOL-Library.Sublist"
begin

section \<open>Python strings\<close>

text \<open>
  A Python \<open>str\<close> is a sequence of Unicode code points, and the program tests for the
  range U+4E00..U+9FFF, so a character is its code point and a string a list of them.
  \<open>u\<close> writes an ASCII literal.
\<close>

type_synonym uchar = nat
type_synonym ustring = "uchar list"

definition u :: "string \<Rightarrow> ustring" where
  "u s = map of_char s"

definition HASH :: uchar where "HASH = 0x23"
definition DQUOTE :: uchar where "DQUOTE = 0x22"
definition SQUOTE :: uchar where "SQUOTE = 0x27"
definition BACKSLASH :: uchar where "BACKSLASH = 0x5C"
definition SPACE :: uchar where "SPACE = 0x20"
definition NEWLINE :: uchar where "NEWLINE = 0x0A"

text \<open>The two triple-quote delimiters, \<open>"""\<close> and \<open>'''\<close>.\<close>

definition TDQ :: ustring where "TDQ = [DQUOTE, DQUOTE, DQUOTE]"
definition TSQ :: ustring where "TSQ = [SQUOTE, SQUOTE, SQUOTE]"

text \<open>
  \<open>str.isspace\<close> of one code point: the characters that \<open>str.strip()\<close> without an
  argument removes.
\<close>

definition isspace :: "uchar \<Rightarrow> bool" where
  "isspace c \<longleftrightarrow>
     (0x09 \<le> c \<and> c \<le> 0x0D) \<or> (0x1C \<le> c \<and> c \<le> 0x20) \<or> c = 0x85 \<or> c = 0xA0 \<or>
     c = 0x1680 \<or> (0x2000 \<le> c \<and> c \<le> 0x200A) \<or> c = 0x2028 \<or> c = 0x2029 \<or>
     c = 0x202F \<or> c = 0x205F \<or> c = 0x3000"

definition lstrip_by :: "(uchar \<Rightarrow> bool) \<Rightarrow> ustring \<Rightarrow> ustring" where
  "lstrip_by P s = dropWhile P s"

definition rstrip_by :: "(uchar \<Rightarrow> bool) \<Rightarrow> ustring \<Rightarrow> ustring" where
  "rstrip_by P s = rev (dropWhile P (rev s))"

text \<open>\<open>s.lstrip()\<close>, \<open>s.rstrip()\<close>, \<open>s.strip()\<close>.\<close>

definition lstrip :: "ustring \<Rightarrow> ustring" where
  "lstrip s = lstrip_by isspace s"

definition rstrip :: "ustring \<Rightarrow> ustring" where
  "rstrip s = rstrip_by isspace s"

definition strip :: "ustring \<Rightarrow> ustring" where
  "strip s = rstrip (lstrip s)"

text \<open>
  \<open>s.lstrip(chars)\<close>, \<open>s.rstrip(chars)\<close>, \<open>s.strip(chars)\<close>: the argument is a set of
  characters, not a prefix or suffix.
\<close>

definition lstrip_chars :: "ustring \<Rightarrow> ustring \<Rightarrow> ustring" where
  "lstrip_chars chars s = lstrip_by (\<lambda>c. c \<in> set chars) s"

definition rstrip_chars :: "ustring \<Rightarrow> ustring \<Rightarrow> ustring" where
  "rstrip_chars chars s = rstrip_by (\<lambda>c. c \<in> set chars) s"

definition strip_chars :: "ustring \<Rightarrow> ustring \<Rightarrow> ustring" where
  "strip_chars chars s = rstrip_chars chars (lstrip_chars chars s)"

text \<open>\<open>sub in s\<close>.\<close>

fun contains :: "ustring \<Rightarrow> ustring \<Rightarrow> bool" where
  "contains [] sub = (sub = [])"
| "contains (c # cs) sub = (prefix sub (c # cs) \<or> contains cs sub)"

text \<open>\<open>s.count(sub)\<close>: occurrences that do not overlap, found from the left.\<close>

function count_sub :: "ustring \<Rightarrow> ustring \<Rightarrow> nat" where
  "count_sub s sub =
     (if sub = [] then Suc (length s)
      else if s = [] then 0
      else if prefix sub s then Suc (count_sub (drop (length sub) s) sub)
      else count_sub (tl s) sub)"
  by pat_completeness auto
termination
  by (relation "measure (\<lambda>(s, sub). length s)") auto

declare count_sub.simps [simp del]

text \<open>\<open>s.split('\n')\<close> and \<open>'\n'.join(xs)\<close>.\<close>

fun split_nl :: "ustring \<Rightarrow> ustring list" where
  "split_nl [] = [] # []"
| "split_nl (c # cs) =
     (if c = NEWLINE then [] # split_nl cs
      else (case split_nl cs of [] \<Rightarrow> [c] # [] | l # ls \<Rightarrow> (c # l) # ls))"

fun join_nl :: "ustring list \<Rightarrow> ustring" where
  "join_nl [] = []"
| "join_nl [l] = l"
| "join_nl (l # ls) = l @ NEWLINE # join_nl ls"

section \<open>The line splitter\<close>

text \<open>
  \<open>_contains_chinese\<close>: the regular expression is the character class U+4E00..U+9FFF, and
  \<open>re.search\<close> finds a match exactly when some character of the text lies in it.
\<close>

definition contains_chinese :: "ustring \<Rightarrow> bool" where
  "contains_chinese text = list_ex (\<lambda>c. 0x4E00 \<le> c \<and> c \<le> 0x9FFF) text"

text \<open>
  The \<open>for i, char in enumerate(line)\<close> loop of \<open>_split_code_comment\<close>, from index
  \<open>i\<close> on, with the loop variables \<open>in_string\<close> and \<open>string_char\<close>. The read
  \<open>line[i-1]\<close> is guarded by \<open>i == 0\<close>, as in the source.
\<close>

function split_loop :: "ustring \<Rightarrow> nat \<Rightarrow> bool \<Rightarrow> uchar option \<Rightarrow> ustring \<times> ustring" where
  "split_loop line i in_string string_char =
     (if i < length line then
        (let char = line ! i in
         if (char = DQUOTE \<or> char = SQUOTE) \<and> (i = 0 \<or> line ! (i - 1) \<noteq> BACKSLASH) then
           (if \<not> in_string then split_loop line (i + 1) True (Some char)
            else if Some char = string_char then split_loop line (i + 1) False None
            else split_loop line (i + 1) in_string string_char)
         else if char = HASH \<and> \<not> in_string then
           (rstrip (take i line), strip (drop (i + 1) line))
         else split_loop line (i + 1) in_string string_char)
      else (line, []))"
  by pat_completeness auto
termination
  by (relation "measure (\<lambda>(line, i, in_string, string_char). length line - i)") auto

declare split_loop.simps [simp del]

definition split_code_comment :: "ustring \<Rightarrow> ustring \<times> ustring" where
  "split_code_comment line =
     (if HASH \<notin> set line then (line, [])
      else split_loop line 0 False None)"

subsection \<open>The reference splitter\<close>

text \<open>
  The splitter as the specification words it: the characters are read from left to
  right with the active quote character (\<open>None\<close> outside a quoted literal) and the
  character just read; a quote that does not follow a backslash opens a literal, or
  closes the one it opened; the first \<open>#\<close> outside a literal is the boundary.
  \<open>ref_boundary\<close> gives its offset.
\<close>

fun ref_boundary :: "uchar option \<Rightarrow> uchar option \<Rightarrow> ustring \<Rightarrow> nat option" where
  "ref_boundary prev quote [] = None"
| "ref_boundary prev quote (c # cs) =
     (if (c = DQUOTE \<or> c = SQUOTE) \<and> prev \<noteq> Some BACKSLASH then
        (case quote of
           None \<Rightarrow> map_option Suc (ref_boundary (Some c) (Some c) cs)
         | Some q \<Rightarrow> map_option Suc (ref_boundary (Some c) (if c = q then None else Some q) cs))
      else if c = HASH \<and> quote = None then Some 0
      else map_option Suc (ref_boundary (Some c) quote cs))"

text \<open>
  The specification's result: the code part is what precedes the boundary, trimmed on
  the right; the comment part is what follows it, trimmed on the left.
\<close>

definition split_ref :: "ustring \<Rightarrow> ustring \<times> ustring" where
  "split_ref line =
     (case ref_boundary None None line of
        None \<Rightarrow> (line, [])
      | Some i \<Rightarrow> (rstrip (take i line), lstrip (drop (Suc i) line)))"

section \<open>Backend, console and exceptions\<close>

text \<open>
  The backend is outside the program. One call of
  \<open>self.client.chat.completions.create\<close> either raises (\<open>Raised\<close>, with the text of the
  exception) or returns a response with a list of choices, each holding
  \<open>message.content\<close>, which is a string or \<open>None\<close>. The answer may depend on the requests
  made before (the service has state, and samples at a temperature above zero), so a
  backend is a function of the prompts sent so far and of the prompt of this call. Model
  name, token limit and temperature are the same in every request.
\<close>

datatype reply = Raised ustring | Response "ustring option list"

type_synonym backend = "ustring list \<Rightarrow> ustring \<Rightarrow> reply"

datatype py_exception =
    BackendError ustring
  | AttributeError
  | TypeError
  | OSError
  | UnicodeEncodeError
  | BrokenPipeError

text \<open>
  The lines the program prints, one constructor for each \<open>print\<close> of \<open>translate_text\<close>
  and \<open>translate_file\<close>. The wording of each is fixed (Chinese text in the source); what
  varies is the path or the exception it shows.
  \<^item> \<open>TranslationError e\<close>: the \<open>print\<close> of the handler of \<open>translate_text\<close> (line 90);
  \<^item> \<open>DryRunRuleAfterBlank\<close>, \<open>DryRunFile path\<close>, \<open>DryRunRule\<close>, \<open>DryRunWillTranslate\<close>: the
    four lines of a dry run that would change the file (lines 213 to 216);
  \<^item> \<open>DryRunSkipped path\<close>: the dry run that would change nothing (line 219);
  \<^item> \<open>Translated path\<close> (line 226) and \<open>Skipped path\<close> (line 229);
  \<^item> \<open>Failed path e\<close>: the \<open>print\<close> of the handler of \<open>translate_file\<close> (line 233).
\<close>

datatype message =
    TranslationError py_exception
  | DryRunRuleAfterBlank
  | DryRunFile ustring
  | DryRunRule
  | DryRunWillTranslate
  | DryRunSkipped ustring
  | Translated ustring
  | Skipped ustring
  | Failed ustring py_exception

text \<open>
  \<open>print\<close> can raise: the stream may be unable to encode the line, or be closed. The
  console is outside the program too: given the lines printed so far and the line to
  print, it accepts the line (\<open>None\<close>) or makes \<open>print\<close> raise an exception.
\<close>

type_synonym console = "message list \<Rightarrow> message \<Rightarrow> py_exception option"

text \<open>What the program has done to the outside so far: prompts sent, lines printed.\<close>

record effects =
  sent :: "ustring list"
  printed :: "message list"

definition print_message :: "console \<Rightarrow> effects \<Rightarrow> message \<Rightarrow> (py_exception + unit) \<times> effects" where
  "print_message console fx m =
     (case console (printed fx) m of
        None \<Rightarrow> (Inr (), fx\<lparr>printed := printed fx @ [m]\<rparr>)
      | Some e \<Rightarrow> (Inl e, fx))"

fun print_messages :: "console \<Rightarrow> effects \<Rightarrow> message list \<Rightarrow> (py_exception + unit) \<times> effects" where
  "print_messages console fx [] = (Inr (), fx)"
| "print_messages console fx (m # ms) =
     (case print_message console fx m of
        (Inl e, fx') \<Rightarrow> (Inl e, fx')
      | (Inr _, fx') \<Rightarrow> print_messages console fx' ms)"

section \<open>translate_text\<close>

text \<open>The fixed wording of the two prompts, as code points.\<close>

definition docstring_prompt_head :: ustring where
  "docstring_prompt_head =
     [0x8BF7, 0x5C06, 0x4EE5, 0x4E0B, 0x50, 0x79, 0x74, 0x68, 0x6F, 0x6E, 0x6587, 0x6863,
      0x5B57, 0x7B26, 0x4E32, 0x4ECE, 0x82F1, 0x6587, 0x7FFB, 0x8BD1, 0x4E3A, 0x4E2D, 0x6587,
      0xFF0C, 0x4FDD, 0x6301, 0x683C, 0x5F0F, 0x548C, 0x7ED3, 0x6784, 0xFF1A, 0xA, 0xA]"

definition docstring_prompt_tail :: ustring where
  "docstring_prompt_tail =
     [0xA, 0xA, 0x53EA, 0x8FD4, 0x56DE, 0x7FFB, 0x8BD1, 0x540E, 0x7684, 0x4E2D, 0x6587, 0x6587,
      0x672C, 0xFF0C, 0x4E0D, 0x8981, 0x6DFB, 0x52A0, 0x4EFB, 0x4F55, 0x89E3, 0x91CA, 0x3002]"

definition comment_prompt_head :: ustring where
  "comment_prompt_head =
     [0x8BF7, 0x5C06, 0x4EE5, 0x4E0B, 0x50, 0x79, 0x74, 0x68, 0x6F, 0x6E, 0x6CE8, 0x91CA,
      0x4ECE, 0x82F1, 0x6587, 0x7FFB, 0x8BD1, 0x4E3A, 0x4E2D, 0x6587, 0xFF1A, 0xA, 0xA]"

definition comment_prompt_tail :: ustring where
  "comment_prompt_tail =
     [0xA, 0xA, 0x53EA, 0x8FD4, 0x56DE, 0x7FFB, 0x8BD1, 0x540E, 0x7684, 0x4E2D, 0x6587, 0x6587,
      0x672C, 0xFF0C, 0x4E0D, 0x8981, 0x6DFB, 0x52A0, 0x23, 0x7B26, 0x53F7, 0x6216, 0x5176,
      0x4ED6, 0x524D, 0x7F00, 0x3002]"

definition build_prompt :: "ustring \<Rightarrow> ustring \<Rightarrow> ustring" where
  "build_prompt text context =
     (if context = u ''docstring'' then docstring_prompt_head @ text @ docstring_prompt_tail
      else comment_prompt_head @ text @ comment_prompt_tail)"

text \<open>
  The body of the \<open>try\<close> block of \<open>translate_text\<close>: the call, and the reading of the
  first choice. \<open>.strip()\<close> on a content that is \<open>None\<close> raises.
\<close>

definition request_translation :: "backend \<Rightarrow> ustring list \<Rightarrow> ustring \<Rightarrow> ustring \<Rightarrow> py_exception + ustring" where
  "request_translation client sent_before prompt text =
     (case client sent_before prompt of
        Raised reason \<Rightarrow> Inl (BackendError reason)
      | Response choices \<Rightarrow>
          (if choices \<noteq> [] \<and> length choices > 0 then
             (case hd choices of
                None \<Rightarrow> Inl AttributeError
              | Some content \<Rightarrow>
                  (let translated = strip content;
                       translated = strip_chars [DQUOTE, SQUOTE] translated
                   in Inr translated))
           else Inr text))"

text \<open>
  \<open>translate_text\<close>. \<open>isalpha\<close> is Python's \<open>str.isalpha\<close> on one character, a table of
  the Unicode database and not of this repository: it is a parameter. The handler of
  the \<open>try\<close> block prints the exception and then returns the text; when that \<open>print\<close>
  raises, its exception leaves \<open>translate_text\<close>. The result is the returned string or
  the exception, and the effects so far.
\<close>

definition translate_text ::
  "(uchar \<Rightarrow> bool) \<Rightarrow> backend \<Rightarrow> console \<Rightarrow> effects \<Rightarrow> ustring \<Rightarrow> ustring
     \<Rightarrow> (py_exception + ustring) \<times> effects" where
  "translate_text isalpha client console fx text context =
     (if contains_chinese text then (Inr text, fx)
      else if length (strip text) < 3 \<or> \<not> list_ex isalpha text then (Inr text, fx)
      else
        (let prompt = build_prompt text context;
             fx1 = fx\<lparr>sent := sent fx @ [prompt]\<rparr>
         in
         case request_translation client (sent fx) prompt text of
           Inr translated \<Rightarrow> (Inr translated, fx1)
         | Inl e \<Rightarrow>
             (case print_message console fx1 (TranslationError e) of
                (Inl e', fx2) \<Rightarrow> (Inl e', fx2)
              | (Inr _, fx2) \<Rightarrow> (Inr text, fx2))))"

section \<open>The scan of a file\<close>

text \<open>The variables of the loop of \<open>translate_file\<close>.\<close>

record scan_state =
  translated_lines :: "ustring list"
  in_docstring :: bool
  docstring_delimiter :: "ustring option"
  docstring_lines :: "ustring list"
  docstring_start_idx :: nat

definition initial_state :: scan_state where
  "initial_state =
     \<lparr>translated_lines = [], in_docstring = False, docstring_delimiter = None,
      docstring_lines = [], docstring_start_idx = 0\<rparr>"

text \<open>
  The inner loop \<open>for j, dline in enumerate(docstring_lines)\<close> that collects
  \<open>doc_content_lines\<close>; \<open>n\<close> is \<open>len(docstring_lines)\<close>.
\<close>

fun doc_content_from :: "ustring \<Rightarrow> nat \<Rightarrow> nat \<Rightarrow> ustring list \<Rightarrow> ustring list" where
  "doc_content_from delimiter n j [] = []"
| "doc_content_from delimiter n j (dline # rest) =
     (if j = 0 then
        (let content = lstrip_chars delimiter (strip dline) in
         (if content \<noteq> [] then [content] else []) @ doc_content_from delimiter n (Suc j) rest)
      else if j = n - 1 then
        (let content = rstrip_chars delimiter (strip dline) in
         (if content \<noteq> [] then [content] else []) @ doc_content_from delimiter n (Suc j) rest)
      else strip dline # doc_content_from delimiter n (Suc j) rest)"

definition doc_content_lines :: "ustring \<Rightarrow> ustring list \<Rightarrow> ustring list" where
  "doc_content_lines delimiter dlines = doc_content_from delimiter (length dlines) 0 dlines"

text \<open>\<open>len(line) - len(line.lstrip())\<close>.\<close>

definition indent_of :: "ustring \<Rightarrow> nat" where
  "indent_of line = length line - length (lstrip line)"

text \<open>
  One iteration of \<open>for i, line in enumerate(lines)\<close>. Inside a block the source tests
  \<open>docstring_delimiter in stripped\<close>, which raises a TypeError when the delimiter is still
  \<open>None\<close>. \<open>docstring_lines[0]\<close> is read after the current line has been appended, so the
  list is not empty there. An exception that leaves \<open>translate_text\<close> leaves the loop.
\<close>

definition scan_line ::
  "(uchar \<Rightarrow> bool) \<Rightarrow> backend \<Rightarrow> console \<Rightarrow> scan_state \<Rightarrow> effects \<Rightarrow> nat \<Rightarrow> ustring
     \<Rightarrow> (py_exception + scan_state) \<times> effects" where
  "scan_line isalpha client console st fx i line =
     (let stripped = strip line in
      if \<not> in_docstring st then
        (if prefix TDQ stripped \<or> prefix TSQ stripped then
           (let delimiter = (if contains line TDQ then TDQ else TSQ) in
            if count_sub stripped delimiter \<ge> 2 \<and> length stripped > 6 then
              (let doc_content = strip_chars delimiter stripped in
               if doc_content \<noteq> [] \<and> \<not> contains_chinese doc_content then
                 (case translate_text isalpha client console fx doc_content (u ''docstring'') of
                    (Inl e, fx') \<Rightarrow> (Inl e, fx')
                  | (Inr translated, fx') \<Rightarrow>
                      (let indent = indent_of line
                       in (Inr (st\<lparr>translated_lines := translated_lines st @
                                   [replicate indent SPACE @ delimiter @ translated @ delimiter]\<rparr>), fx')))
               else (Inr (st\<lparr>translated_lines := translated_lines st @ [line]\<rparr>), fx))
            else
              (Inr (st\<lparr>in_docstring := True, docstring_delimiter := Some delimiter,
                       docstring_lines := [line], docstring_start_idx := i\<rparr>), fx))
         else if HASH \<in> set line then
           (let (code_part, comment_part) = split_code_comment line in
            if comment_part \<noteq> [] \<and> \<not> contains_chinese comment_part then
              (case translate_text isalpha client console fx comment_part (u ''comment'') of
                 (Inl e, fx') \<Rightarrow> (Inl e, fx')
               | (Inr translated_comment, fx') \<Rightarrow>
                   (Inr (st\<lparr>translated_lines := translated_lines st @
                            [code_part @ [SPACE, SPACE, HASH, SPACE] @ translated_comment]\<rparr>), fx'))
            else (Inr (st\<lparr>translated_lines := translated_lines st @ [line]\<rparr>), fx))
         else (Inr (st\<lparr>translated_lines := translated_lines st @ [line]\<rparr>), fx))
      else
        (let dlines = docstring_lines st @ [line] in
         case docstring_delimiter st of
           None \<Rightarrow> (Inl TypeError, fx)
         | Some delimiter \<Rightarrow>
             (if contains stripped delimiter then
                (let indent = indent_of (hd dlines);
                     doc_content = join_nl (doc_content_lines delimiter dlines)
                 in
                 if doc_content \<noteq> [] \<and> \<not> contains_chinese doc_content then
                   (case translate_text isalpha client console fx doc_content (u ''docstring'') of
                      (Inl e, fx') \<Rightarrow> (Inl e, fx')
                    | (Inr translated_doc, fx') \<Rightarrow>
                        (Inr (st\<lparr>translated_lines := translated_lines st @
                                   [replicate indent SPACE @ delimiter] @
                                   map (\<lambda>trans_line. replicate indent SPACE @ trans_line)
                                     (filter (\<lambda>trans_line. strip trans_line \<noteq> [])
                                       (split_nl translated_doc)) @
                                   [replicate indent SPACE @ delimiter],
                                 in_docstring := False, docstring_lines := []\<rparr>), fx'))
                 else
                   (Inr (st\<lparr>translated_lines := translated_lines st @ dlines,
                            in_docstring := False, docstring_lines := []\<rparr>), fx))
              else (Inr (st\<lparr>docstring_lines := dlines\<rparr>), fx))))"

text \<open>The loop: an exception ends it.\<close>

fun scan_lines ::
  "(uchar \<Rightarrow> bool) \<Rightarrow> backend \<Rightarrow> console \<Rightarrow> scan_state \<Rightarrow> effects \<Rightarrow> nat \<Rightarrow> ustring list
     \<Rightarrow> (py_exception + scan_state) \<times> effects" where
  "scan_lines isalpha client console st fx i [] = (Inr st, fx)"
| "scan_lines isalpha client console st fx i (line # rest) =
     (case scan_line isalpha client console st fx i line of
        (Inl e, fx') \<Rightarrow> (Inl e, fx')
      | (Inr st', fx') \<Rightarrow> scan_lines isalpha client console st' fx' (Suc i) rest)"

text \<open>
  From \<open>content.split('\n')\<close> to \<open>translated_content = '\n'.join(translated_lines)\<close>.
  Nothing is done with \<open>docstring_lines\<close> after the loop.
\<close>

definition translate_content ::
  "(uchar \<Rightarrow> bool) \<Rightarrow> backend \<Rightarrow> console \<Rightarrow> effects \<Rightarrow> ustring
     \<Rightarrow> (py_exception + ustring) \<times> effects" where
  "translate_content isalpha client console fx content =
     (case scan_lines isalpha client console initial_state fx 0 (split_nl content) of
        (Inl e, fx') \<Rightarrow> (Inl e, fx')
      | (Inr st, fx') \<Rightarrow> (Inr (join_nl (translated_lines st)), fx'))"

section \<open>The file pass\<close>

text \<open>
  The file system: the text stored in each file that can be opened and decoded, the
  paths that cannot be opened for writing, and the paths opened for writing so far, in
  order. Reading is in text mode with universal newlines: a carriage return, alone or
  before a line feed, is read as a line feed. Writing is as on POSIX, where a line feed
  is written as it is.
\<close>

record file_system =
  files :: "ustring \<Rightarrow> ustring option"
  read_only :: "ustring \<Rightarrow> bool"
  writes :: "ustring list"

definition CR :: uchar where "CR = 0x0D"

fun universal_newlines :: "ustring \<Rightarrow> ustring" where
  "universal_newlines [] = []"
| "universal_newlines [c] = [if c = CR then NEWLINE else c]"
| "universal_newlines (c # d # ds) =
     (if c = CR then
        (if d = NEWLINE then NEWLINE # universal_newlines ds
         else NEWLINE # universal_newlines (d # ds))
      else c # universal_newlines (d # ds))"

definition read_file :: "file_system \<Rightarrow> ustring \<Rightarrow> ustring option" where
  "read_file fs file_path = map_option universal_newlines (files fs file_path)"

text \<open>
  \<open>open(file_path, 'w')\<close> empties the file before anything is written. \<open>f.write\<close> encodes
  the whole text as UTF-8 first, which raises on a surrogate code point (U+D800..U+DFFF)
  and then stores nothing: the file stays empty.
\<close>

definition open_write :: "file_system \<Rightarrow> ustring \<Rightarrow> file_system" where
  "open_write fs file_path =
     fs\<lparr>files := (files fs)(file_path \<mapsto> []), writes := writes fs @ [file_path]\<rparr>"

definition encodable :: "ustring \<Rightarrow> bool" where
  "encodable text = (\<not> list_ex (\<lambda>c. 0xD800 \<le> c \<and> c \<le> 0xDFFF) text)"

definition write_text :: "file_system \<Rightarrow> ustring \<Rightarrow> ustring \<Rightarrow> file_system" where
  "write_text fs file_path text = fs\<lparr>files := (files fs)(file_path \<mapsto> text)\<rparr>"

text \<open>
  The \<open>try\<close> block of \<open>translate_file\<close>: the value returned or the exception raised, the
  file system and the effects.
\<close>

definition translate_file_try ::
  "(uchar \<Rightarrow> bool) \<Rightarrow> backend \<Rightarrow> console \<Rightarrow> file_system \<Rightarrow> effects \<Rightarrow> ustring \<Rightarrow> bool
     \<Rightarrow> (py_exception + bool) \<times> file_system \<times> effects" where
  "translate_file_try isalpha client console fs fx file_path dry_run =
     (case read_file fs file_path of
        None \<Rightarrow> (Inl OSError, fs, fx)
      | Some content \<Rightarrow>
          (let original_content = content in
           case translate_content isalpha client console fx content of
             (Inl e, fx1) \<Rightarrow> (Inl e, fs, fx1)
           | (Inr translated_content, fx1) \<Rightarrow>
               (if dry_run then
                  (if translated_content \<noteq> original_content then
                     (case print_messages console fx1
                             [DryRunRuleAfterBlank, DryRunFile file_path, DryRunRule, DryRunWillTranslate] of
                        (Inl e, fx2) \<Rightarrow> (Inl e, fs, fx2)
                      | (Inr _, fx2) \<Rightarrow> (Inr True, fs, fx2))
                   else
                     (case print_message console fx1 (DryRunSkipped file_path) of
                        (Inl e, fx2) \<Rightarrow> (Inl e, fs, fx2)
                      | (Inr _, fx2) \<Rightarrow> (Inr True, fs, fx2)))
                else if translated_content \<noteq> original_content then
                  (if read_only fs file_path then (Inl OSError, fs, fx1)
                   else
                     (let fs1 = open_write fs file_path in
                      if \<not> encodable translated_content then (Inl UnicodeEncodeError, fs1, fx1)
                      else
                        (let fs2 = write_text fs1 file_path translated_content in
                         case print_message console fx1 (Translated file_path) of
                           (Inl e, fx2) \<Rightarrow> (Inl e, fs2, fx2)
                         | (Inr _, fx2) \<Rightarrow> (Inr True, fs2, fx2))))
                else
                  (case print_message console fx1 (Skipped file_path) of
                     (Inl e, fx2) \<Rightarrow> (Inl e, fs, fx2)
                   | (Inr _, fx2) \<Rightarrow> (Inr True, fs, fx2)))))"

text \<open>
  \<open>translate_file\<close>: the handler prints the failure and returns \<open>False\<close>; when that
  \<open>print\<close> raises, its exception leaves \<open>translate_file\<close>.
\<close>

definition translate_file ::
  "(uchar \<Rightarrow> bool) \<Rightarrow> backend \<Rightarrow> console \<Rightarrow> file_system \<Rightarrow> effects \<Rightarrow> ustring \<Rightarrow> bool
     \<Rightarrow> (py_exception + bool) \<times> file_system \<times> effects" where
  "translate_file isalpha client console fs fx file_path dry_run =
     (case translate_file_try isalpha client console fs fx file_path dry_run of
        (Inr result, fs', fx') \<Rightarrow> (Inr result, fs', fx')
      | (Inl e, fs', fx') \<Rightarrow>
          (case print_message console fx' (Failed file_path e) of
             (Inl e', fx'') \<Rightarrow> (Inl e', fs', fx'')
           | (Inr _, fx'') \<Rightarrow> (Inr False, fs', fx'')))"

section \<open>The spans of a file\<close>

text \<open>
  The texts that the scan extracts and tests before it translates, in file order: the
  content of a single-line docstring, the comment part of a line with \<open>#\<close>, the content
  of a closed block. The arguments are \<open>in_docstring\<close>, \<open>docstring_delimiter\<close> and
  \<open>docstring_lines\<close>; none of them depends on what the backend answers.
\<close>

fun spans_from :: "bool \<Rightarrow> ustring option \<Rightarrow> ustring list \<Rightarrow> ustring list \<Rightarrow> ustring list" where
  "spans_from ind dd dl [] = []"
| "spans_from ind dd dl (line # rest) =
     (let stripped = strip line in
      if \<not> ind then
        (if prefix TDQ stripped \<or> prefix TSQ stripped then
           (let delimiter = (if contains line TDQ then TDQ else TSQ) in
            if count_sub stripped delimiter \<ge> 2 \<and> length stripped > 6 then
              strip_chars delimiter stripped # spans_from False dd dl rest
            else spans_from True (Some delimiter) [line] rest)
         else if HASH \<in> set line then
           snd (split_code_comment line) # spans_from False dd dl rest
         else spans_from False dd dl rest)
      else
        (case dd of
           None \<Rightarrow> []
         | Some delimiter \<Rightarrow>
             (if contains stripped delimiter then
                join_nl (doc_content_lines delimiter (dl @ [line])) # spans_from False dd [] rest
              else spans_from True dd (dl @ [line]) rest)))"

definition spans :: "ustring \<Rightarrow> ustring list" where
  "spans content = spans_from False None [] (split_nl content)"

text \<open>
  Whether the scan of a text ends inside a block that was opened and never closed.
\<close>

definition ends_in_block ::
  "(uchar \<Rightarrow> bool) \<Rightarrow> backend \<Rightarrow> console \<Rightarrow> effects \<Rightarrow> ustring \<Rightarrow> bool" where
  "ends_in_block isalpha client console fx content =
     (case fst (scan_lines isalpha client console initial_state fx 0 (split_nl content)) of
        Inr st \<Rightarrow> in_docstring st
      | Inl e \<Rightarrow> False)"

section \<open>Sample inputs\<close>

text \<open>
  Concrete values for the examples: a stand-in for \<open>str.isalpha\<close> that is right on ASCII
  and on U+4E00..U+9FFF (all of them letters), backends, a console that prints every
  line and one that cannot encode any, no effects yet, and a file system with one
  writable file.
\<close>

definition isalpha_basic :: "uchar \<Rightarrow> bool" where
  "isalpha_basic c \<longleftrightarrow>
     (0x41 \<le> c \<and> c \<le> 0x5A) \<or> (0x61 \<le> c \<and> c \<le> 0x7A) \<or> (0x4E00 \<le> c \<and> c \<le> 0x9FFF)"

definition failing_backend :: backend where
  "failing_backend sent_before prompt = Raised (u ''connection refused'')"

definition empty_backend :: backend where
  "empty_backend sent_before prompt = Response []"

definition fixed_backend :: "ustring \<Rightarrow> backend" where
  "fixed_backend answer sent_before prompt = Response [Some answer]"

text \<open>A backend that answers \<open>one\<close> to the first request and \<open>two\<close> to every later one.\<close>

definition counting_backend :: backend where
  "counting_backend sent_before prompt =
     Response [Some (if sent_before = [] then u ''one'' else u ''two'')]"

definition printing_console :: console where
  "printing_console printed_before m = None"

definition ascii_console :: console where
  "ascii_console printed_before m = Some UnicodeEncodeError"

definition no_effects :: effects where
  "no_effects = \<lparr>sent = [], printed = []\<rparr>"

definition single_file :: "ustring \<Rightarrow> ustring \<Rightarrow> file_system" where
  "single_file file_path content =
     \<lparr>files = (\<lambda>p. if p = file_path then Some content else None),
      read_only = (\<lambda>p. False), writes = []\<rparr>"

section \<open>Notions used in the proofs\<close>

text \<open>The result of the loop when the boundary lies \<open>k\<close> characters after index \<open>i\<close>.\<close>

definition split_at :: "ustring \<Rightarrow> nat \<Rightarrow> nat option \<Rightarrow> ustring \<times> ustring" where
  "split_at line i r =
     (case r of None \<Rightarrow> (line, [])
      | Some k \<Rightarrow> (rstrip (take (i + k) line), strip (drop (Suc (i + k)) line)))"

text \<open>The character before index \<open>i\<close>, if there is one.\<close>

definition prev_char :: "ustring \<Rightarrow> nat \<Rightarrow> uchar option" where
  "prev_char line i = (if i = 0 then None else Some (line ! (i - 1)))"

text \<open>
  The lines the scan holds back: those of the block it is in, which reach the output
  only when the block closes.
\<close>

definition pending :: "scan_state \<Rightarrow> ustring list" where
  "pending st = (if in_docstring st then docstring_lines st else [])"

text \<open>The prompts that can be built from a list of spans.\<close>

definition span_prompts :: "ustring list \<Rightarrow> ustring set" where
  "span_prompts ss = {p. \<exists>s \<in> set ss. \<exists>context. p = build_prompt s context}"

text \<open>
  The lines written for a translated block: a delimiter line, the lines of the
  translation that are not blank, and a delimiter line, each after \<open>indent\<close> blanks.
\<close>

definition block_lines :: "nat \<Rightarrow> ustring \<Rightarrow> ustring \<Rightarrow> ustring list" where
  "block_lines indent delimiter translated_doc =
     [replicate indent SPACE @ delimiter] @
     map (\<lambda>trans_line. replicate indent SPACE @ trans_line)
       (filter (\<lambda>trans_line. strip trans_line \<noteq> []) (split_nl translated_doc)) @
     [replicate indent SPACE @ delimiter]"

section \<open>Facts about the string operations\<close>

lemma char_consts_distinct [simp]:
  "HASH \<noteq> DQUOTE" "HASH \<noteq> SQUOTE" "DQUOTE \<noteq> HASH" "SQUOTE \<noteq> HASH"
  "DQUOTE \<noteq> SQUOTE" "SQUOTE \<noteq> DQUOTE"
  by (simp_all add: HASH_def DQUOTE_def SQUOTE_def)

lemmas char_defs = HASH_def DQUOTE_def SQUOTE_def BACKSLASH_def SPACE_def NEWLINE_def TDQ_def TSQ_def

lemmas strip_defs =
  lstrip_by_def rstrip_by_def lstrip_def rstrip_def strip_def
  lstrip_chars_def rstrip_chars_def strip_chars_def isspace_def

section \<open>The line splitter meets its reference\<close>

lemma ref_boundary_no_hash: "HASH \<notin> set s \<Longrightarrow> ref_boundary prev quote s = None"
  by (induction s arbitrary: prev quote) (simp_all split: option.splits)

lemma split_at_Suc: "split_at line (Suc i) r = split_at line i (map_option Suc r)"
  by (cases r) (simp_all add: split_at_def)

lemma prev_char_Suc: "prev_char line (Suc i) = Some (line ! i)"
  by (simp add: prev_char_def)

lemma split_loop_ref:
  "i \<le> length line \<Longrightarrow> (in_string \<longleftrightarrow> string_char \<noteq> None) \<Longrightarrow>
   split_loop line i in_string string_char =
     split_at line i (ref_boundary (prev_char line i) string_char (drop i line))"
proof (induction line i in_string string_char rule: split_loop.induct)
  case (1 line i in_string string_char)
  show ?case
  proof (cases "i < length line")
    case False
    then have "split_loop line i in_string string_char = (line, [])"
      by (subst split_loop.simps) simp
    moreover from False "1.prems" have "drop i line = []" by simp
    ultimately show ?thesis by (simp add: split_at_def)
  next
    case True
    then have d: "drop i line = line ! i # drop (Suc i) line"
      by (simp add: Cons_nth_drop_Suc)
    let ?c = "line ! i"
    let ?isq = "(?c = DQUOTE \<or> ?c = SQUOTE) \<and> (i = 0 \<or> line ! (i - 1) \<noteq> BACKSLASH)"
    from True have le: "i + 1 \<le> length line" by simp
    show ?thesis
    proof (cases ?isq)
      case q: True
      then have q': "(?c = DQUOTE \<or> ?c = SQUOTE) \<and> prev_char line i \<noteq> Some BACKSLASH"
        unfolding prev_char_def by auto
      show ?thesis
      proof (cases string_char)
        case None
        with "1.prems" have ns: "\<not> in_string" by simp
        have "split_loop line i in_string string_char = split_loop line (i + 1) True (Some ?c)"
          using True q ns by (subst split_loop.simps) (auto simp: Let_def)
        also have "\<dots> = split_at line (i + 1) (ref_boundary (prev_char line (i + 1)) (Some ?c) (drop (i + 1) line))"
          using "1.IH"(1)[OF True refl q ns le] by simp
        finally show ?thesis
          using q' None by (auto simp: d split_at_Suc prev_char_Suc)
      next
        case (Some a)
        with "1.prems" have ins: "in_string" by simp
        show ?thesis
        proof (cases "?c = a")
          case c: True
          have "split_loop line i in_string string_char = split_loop line (i + 1) False None"
            using True q ins Some c by (subst split_loop.simps) (auto simp: Let_def)
          also have "\<dots> = split_at line (i + 1) (ref_boundary (prev_char line (i + 1)) None (drop (i + 1) line))"
            using "1.IH"(2)[OF True refl q _ _ le] ins Some c by simp
          finally show ?thesis
            using q' Some c by (auto simp: d split_at_Suc prev_char_Suc)
        next
          case c: False
          have "split_loop line i in_string string_char = split_loop line (i + 1) in_string string_char"
            using True q ins Some c by (subst split_loop.simps) (auto simp: Let_def)
          also have "\<dots> = split_at line (i + 1) (ref_boundary (prev_char line (i + 1)) string_char (drop (i + 1) line))"
            using "1.IH"(3)[OF True refl q _ _ le] ins Some c "1.prems" by simp
          finally show ?thesis
            using q' Some c by (auto simp: d split_at_Suc prev_char_Suc)
        qed
      qed
    next
      case nq: False
      then have nq': "\<not> ((?c = DQUOTE \<or> ?c = SQUOTE) \<and> prev_char line i \<noteq> Some BACKSLASH)"
        unfolding prev_char_def by auto
      show ?thesis
      proof (cases "?c = HASH \<and> \<not> in_string")
        case h: True
        with "1.prems" have sn: "string_char = None" by simp
        have "split_loop line i in_string string_char = (rstrip (take i line), strip (drop (i + 1) line))"
          using True nq h by (subst split_loop.simps) (auto simp: Let_def)
        moreover have "ref_boundary (prev_char line i) string_char (drop i line) = Some 0"
          unfolding d using nq' h sn by auto
        ultimately show ?thesis by (simp add: split_at_def)
      next
        case h: False
        then have h': "\<not> (?c = HASH \<and> string_char = None)"
          using "1.prems" by simp
        have "split_loop line i in_string string_char = split_loop line (i + 1) in_string string_char"
          using True nq h by (subst split_loop.simps) (auto simp: Let_def)
        also have "\<dots> = split_at line (i + 1) (ref_boundary (prev_char line (i + 1)) string_char (drop (i + 1) line))"
          using "1.IH"(4)[OF True refl nq h le] "1.prems" by simp
        finally show ?thesis
          unfolding d using nq' h' by (auto simp: split_at_Suc prev_char_Suc)
      qed
    qed
  qed
qed

text \<open>
  C3, as the code has it. \<open>_split_code_comment\<close> finds the boundary of the reference
  splitter and returns the reference's code part; its comment part is the reference's
  comment part trimmed on the right as well, since the source calls \<open>strip()\<close> on what
  follows the boundary. Without an unquoted \<open>#\<close> both return the line and the empty
  string.
\<close>

theorem split_code_comment_refines:
  "split_code_comment line = (fst (split_ref line), rstrip (snd (split_ref line)))"
proof (cases "HASH \<in> set line")
  case False
  then show ?thesis
    by (simp add: split_code_comment_def split_ref_def ref_boundary_no_hash rstrip_def rstrip_by_def)
next
  case True
  have "split_loop line 0 False None = split_at line 0 (ref_boundary None None line)"
    using split_loop_ref[of 0 line False None] by (simp add: prev_char_def)
  with True show ?thesis
    by (simp add: split_code_comment_def split_ref_def split_at_def strip_def rstrip_def rstrip_by_def
        split: option.splits)
qed

text \<open>
  C3, as the claim states it, fails on a comment that ends in white space: for the line
  \<open>x = 1 # set x \<close> the reference keeps the trailing blank of the comment part and the
  code drops it.
\<close>

theorem split_code_comment_trailing_space:
  "split_code_comment (u ''x = 1 # set x '') = (u ''x = 1'', u ''set x'') \<and>
   split_ref (u ''x = 1 # set x '') = (u ''x = 1'', u ''set x '')"
  by (simp add: u_def split_code_comment_def split_ref_def split_loop.simps char_defs strip_defs)

section \<open>The gate and the backend call\<close>

lemma lstrip_by_hd: "lstrip_by P s \<noteq> [] \<Longrightarrow> \<not> P (hd (lstrip_by P s))"
  by (simp add: lstrip_by_def hd_dropWhile)

lemma rstrip_by_last: "rstrip_by P s \<noteq> [] \<Longrightarrow> \<not> P (last (rstrip_by P s))"
  by (simp add: rstrip_by_def last_rev hd_dropWhile)

lemma rstrip_by_prefix: "s = rstrip_by P s @ rev (takeWhile P (rev s))"
proof -
  have "rev (dropWhile P (rev s)) @ rev (takeWhile P (rev s)) =
        rev (takeWhile P (rev s) @ dropWhile P (rev s))"
    by (simp only: rev_append)
  also have "\<dots> = s" by simp
  finally show ?thesis by (simp add: rstrip_by_def)
qed

lemma rstrip_by_hd: "rstrip_by P s \<noteq> [] \<Longrightarrow> hd (rstrip_by P s) = hd s"
  using rstrip_by_prefix[of s P] by (metis hd_append2)

lemma strip_chars_ends:
  assumes "strip_chars chars s \<noteq> []"
  shows "hd (strip_chars chars s) \<notin> set chars \<and> last (strip_chars chars s) \<notin> set chars"
proof -
  let ?P = "\<lambda>c. c \<in> set chars"
  let ?l = "lstrip_by ?P s"
  from assms have ne: "rstrip_by ?P ?l \<noteq> []"
    by (simp add: strip_chars_def rstrip_chars_def lstrip_chars_def)
  then have "?l \<noteq> []" by (auto simp: rstrip_by_def)
  then have "\<not> ?P (hd ?l)" by (rule lstrip_by_hd)
  moreover have "hd (rstrip_by ?P ?l) = hd ?l" using ne by (rule rstrip_by_hd)
  moreover have "\<not> ?P (last (rstrip_by ?P ?l))" using ne by (rule rstrip_by_last)
  ultimately show ?thesis
    by (simp add: strip_chars_def rstrip_chars_def lstrip_chars_def)
qed

text \<open>
  C7. A text whose stripped form has fewer than 3 characters, or that has no alphabetic
  character, or that contains a character in U+4E00..U+9FFF, is returned unchanged, and
  the effects stay as they were: no prompt is sent, so the backend is not contacted, and
  nothing is printed.
\<close>

theorem translate_text_gate:
  "length (strip text) < 3 \<or> \<not> list_ex isalpha text \<or> contains_chinese text \<Longrightarrow>
   translate_text isalpha client console fx text context = (Inr text, fx)"
  by (auto simp: translate_text_def)

theorem translate_text_gate_witness:
  "contains_chinese [0x8FD9, 0x662F, 0x4E2D, 0x6587] \<and>
   translate_text isalpha_basic (fixed_backend (u ''never asked'')) ascii_console no_effects
       [0x8FD9, 0x662F, 0x4E2D, 0x6587] (u ''comment'')
     = (Inr [0x8FD9, 0x662F, 0x4E2D, 0x6587], no_effects)"
  using translate_text_gate[of "[0x8FD9, 0x662F, 0x4E2D, 0x6587]" isalpha_basic
      "fixed_backend (u ''never asked'')" ascii_console no_effects "u ''comment''"]
  by (simp add: contains_chinese_def)

text \<open>
  C6, as the code has it. A response with no choice makes \<open>translate_text\<close> return the
  original text; nothing is printed on that path. When the call raises, or the first
  choice has no content (reading it raises inside the \<open>try\<close> block), the handler prints
  the exception and then returns the original text: \<open>translate_text\<close> returns the text
  whenever the console accepts that line.
\<close>

theorem translate_text_backend_failure:
  "(client (sent fx) (build_prompt text context) = Response [] \<longrightarrow>
      fst (translate_text isalpha client console fx text context) = Inr text) \<and>
   ((client (sent fx) (build_prompt text context) = Raised reason \<and> e = BackendError reason \<or>
     (\<exists>rest. client (sent fx) (build_prompt text context) = Response (None # rest)) \<and> e = AttributeError) \<and>
    console (printed fx) (TranslationError e) = None \<longrightarrow>
      fst (translate_text isalpha client console fx text context) = Inr text)"
  by (auto simp: translate_text_def request_translation_def print_message_def Let_def)

theorem translate_text_backend_failure_witness:
  "fst (translate_text isalpha_basic failing_backend printing_console no_effects (u ''set x'') (u ''comment''))
     = Inr (u ''set x'') \<and>
   fst (translate_text isalpha_basic empty_backend ascii_console no_effects (u ''set x'') (u ''comment''))
     = Inr (u ''set x'')"
  using translate_text_backend_failure[of failing_backend no_effects "u ''set x''" "u ''comment''"
          isalpha_basic printing_console "u ''connection refused''" "BackendError (u ''connection refused'')"]
    translate_text_backend_failure[of empty_backend no_effects "u ''set x''" "u ''comment''"
          isalpha_basic ascii_console]
  by (simp add: failing_backend_def empty_backend_def printing_console_def)

text \<open>
  C6, as the claim states it, fails when the handler's own \<open>print\<close> raises: with a
  backend that raises and a console that cannot encode the line, the prompt is sent,
  and the exception of \<open>print\<close> leaves \<open>translate_text\<close> in place of the text.
\<close>

theorem backend_error_with_failing_print:
  "translate_text isalpha_basic failing_backend ascii_console no_effects (u ''set x'') (u ''comment'') =
     (Inl UnicodeEncodeError, no_effects\<lparr>sent := [build_prompt (u ''set x'') (u ''comment'')]\<rparr>)"
  by (simp add: u_def translate_text_def request_translation_def print_message_def failing_backend_def
      ascii_console_def no_effects_def contains_chinese_def isalpha_basic_def strip_defs Let_def)

text \<open>
  C10. For a text that passes the gate and a response whose first choice has a content,
  the result is that content with white space stripped and then every leading and
  trailing double and single quote stripped; it is empty, or neither its first nor its
  last character is a quote.
\<close>

theorem translate_text_strips_quotes:
  assumes "\<not> contains_chinese text" and "\<not> length (strip text) < 3" and "list_ex isalpha text"
    and "client (sent fx) (build_prompt text context) = Response (Some content # rest)"
  shows "fst (translate_text isalpha client console fx text context) =
           Inr (strip_chars [DQUOTE, SQUOTE] (strip content)) \<and>
         (strip_chars [DQUOTE, SQUOTE] (strip content) = [] \<or>
          hd (strip_chars [DQUOTE, SQUOTE] (strip content)) \<notin> {DQUOTE, SQUOTE} \<and>
          last (strip_chars [DQUOTE, SQUOTE] (strip content)) \<notin> {DQUOTE, SQUOTE})"
proof -
  have r: "fst (translate_text isalpha client console fx text context) =
           Inr (strip_chars [DQUOTE, SQUOTE] (strip content))"
    using assms by (simp add: translate_text_def request_translation_def Let_def)
  show ?thesis
    unfolding r using strip_chars_ends[of "[DQUOTE, SQUOTE]" "strip content"] by auto
qed

theorem translate_text_strips_quotes_witness:
  "\<not> contains_chinese (u ''set x'') \<and> list_ex isalpha_basic (u ''set x'') \<and>
   fst (translate_text isalpha_basic (fixed_backend (u '' \"ok'' @ [SQUOTE, SPACE])) ascii_console no_effects
          (u ''set x'') (u ''comment'')) = Inr (u ''ok'')"
  using translate_text_strips_quotes[of "u ''set x''" isalpha_basic
      "fixed_backend (u '' \"ok'' @ [SQUOTE, SPACE])" no_effects "u ''comment''" "u '' \"ok'' @ [SQUOTE, SPACE]" "[]"
      ascii_console]
  by (simp add: u_def contains_chinese_def isalpha_basic_def fixed_backend_def char_defs strip_defs)

section \<open>Substrings, counts and delimiters\<close>

text \<open>\<open>contains\<close> is the occurrence of a substring, as Python's \<open>in\<close>.\<close>

lemma contains_iff: "contains s sub \<longleftrightarrow> (\<exists>a b. s = a @ sub @ b)"
proof (induction s)
  case Nil
  then show ?case by auto
next
  case (Cons c cs)
  show ?case
  proof
    assume "contains (c # cs) sub"
    then consider "prefix sub (c # cs)" | "contains cs sub" by auto
    then show "\<exists>a b. c # cs = a @ sub @ b"
    proof cases
      case 1
      then obtain b where "c # cs = sub @ b" by (auto simp: prefix_def)
      then have "c # cs = [] @ sub @ b" by simp
      then show ?thesis by blast
    next
      case 2
      with Cons.IH obtain a b where "cs = a @ sub @ b" by blast
      then have "c # cs = (c # a) @ sub @ b" by simp
      then show ?thesis by blast
    qed
  next
    assume "\<exists>a b. c # cs = a @ sub @ b"
    then obtain a b where ab: "c # cs = a @ sub @ b" by blast
    show "contains (c # cs) sub"
    proof (cases a)
      case Nil
      with ab have "prefix sub (c # cs)" by (simp add: prefix_def)
      then show ?thesis by simp
    next
      case (Cons x a')
      with ab have "cs = a' @ sub @ b" by simp
      with Cons.IH have "contains cs sub" by blast
      then show ?thesis by simp
    qed
  qed
qed

lemma strip_infix: "\<exists>a b. line = a @ strip line @ b"
proof -
  have 1: "line = takeWhile isspace line @ lstrip line"
    by (simp add: lstrip_def lstrip_by_def)
  have 2: "lstrip line = strip line @ rev (takeWhile isspace (rev (lstrip line)))"
    unfolding strip_def rstrip_def by (rule rstrip_by_prefix)
  from 1 2 have "line = takeWhile isspace line @ strip line @ rev (takeWhile isspace (rev (lstrip line)))"
    by simp
  then show ?thesis by blast
qed

lemma contains_strip: "contains (strip line) sub \<Longrightarrow> contains line sub"
proof -
  assume "contains (strip line) sub"
  then obtain a b where s: "strip line = a @ sub @ b" by (auto simp: contains_iff)
  obtain a' b' where "line = a' @ strip line @ b'" using strip_infix by blast
  with s have "line = (a' @ a) @ sub @ (b @ b')" by simp
  then show ?thesis unfolding contains_iff by blast
qed

lemma count_sub_suffix: "sub \<noteq> [] \<Longrightarrow> 1 \<le> count_sub (xs @ sub) sub"
proof (induction xs)
  case Nil
  then show ?case by (subst count_sub.simps) simp
next
  case (Cons x xs)
  then show ?case by (subst count_sub.simps) simp
qed

lemma count_sub_wrapped: "sub \<noteq> [] \<Longrightarrow> 2 \<le> count_sub (sub @ body @ sub) sub"
  using count_sub_suffix[of sub body] by (subst count_sub.simps) simp

lemma strip_chars_wrapped:
  assumes "set d = {q}" and "body \<noteq> []" and "hd body \<noteq> q" and "last body \<noteq> q"
  shows "strip_chars d (d @ body @ d) = body"
proof -
  let ?P = "\<lambda>c. c \<in> set d"
  obtain y ys where b: "body = y # ys" using assms(2) by (cases body) auto
  with assms have ny: "\<not> ?P y" by simp
  have l: "dropWhile ?P (d @ body @ d) = body @ d"
    using ny by (simp add: b dropWhile_append)
  obtain z zs where rb: "rev body = z # zs" using assms(2) by (cases "rev body") auto
  then have "z = last body" by (metis hd_rev list.sel(1))
  with assms have nz: "\<not> ?P z" by simp
  have "dropWhile ?P (rev (body @ d)) = rev body"
    using nz by (simp add: rb dropWhile_append)
  then show ?thesis
    by (simp add: strip_chars_def rstrip_chars_def lstrip_chars_def lstrip_by_def rstrip_by_def l)
qed

lemmas eval_defs =
  u_def char_defs strip_defs contains_chinese_def isalpha_basic_def scan_line_def
  translate_text_def request_translation_def split_code_comment_def split_loop.simps
  count_sub.simps indent_of_def initial_state_def doc_content_lines_def Let_def
  failing_backend_def empty_backend_def fixed_backend_def counting_backend_def
  print_message_def printing_console_def ascii_console_def no_effects_def

section \<open>One line of the scan\<close>

text \<open>The six branches of one iteration, each under its own condition.\<close>

lemma comment_line_step:
  assumes "\<not> in_docstring st" and "\<not> (prefix TDQ (strip line) \<or> prefix TSQ (strip line))"
    and "HASH \<in> set line" and "split_code_comment line = (code_part, comment_part)"
  shows "scan_line isalpha client console st fx i line =
      (if comment_part = [] \<or> contains_chinese comment_part
       then (Inr (st\<lparr>translated_lines := translated_lines st @ [line]\<rparr>), fx)
       else (case translate_text isalpha client console fx comment_part (u ''comment'') of
               (Inl e, fx') \<Rightarrow> (Inl e, fx')
             | (Inr result, fx') \<Rightarrow>
                 (Inr (st\<lparr>translated_lines := translated_lines st @
                          [code_part @ [SPACE, SPACE, HASH, SPACE] @ result]\<rparr>), fx')))"
  using assms by (auto simp: scan_line_def Let_def split: prod.splits sum.splits)

lemma single_line_docstring_step:
  assumes "\<not> in_docstring st" and "prefix TDQ (strip line) \<or> prefix TSQ (strip line)"
    and "d = (if contains line TDQ then TDQ else TSQ)"
    and "2 \<le> count_sub (strip line) d" and "6 < length (strip line)"
    and "doc_content = strip_chars d (strip line)"
  shows "scan_line isalpha client console st fx i line =
      (if doc_content = [] \<or> contains_chinese doc_content
       then (Inr (st\<lparr>translated_lines := translated_lines st @ [line]\<rparr>), fx)
       else (case translate_text isalpha client console fx doc_content (u ''docstring'') of
               (Inl e, fx') \<Rightarrow> (Inl e, fx')
             | (Inr result, fx') \<Rightarrow>
                 (Inr (st\<lparr>translated_lines := translated_lines st @
                          [replicate (indent_of line) SPACE @ d @ result @ d]\<rparr>), fx')))"
  using assms by (auto simp: scan_line_def Let_def split: prod.splits sum.splits)

lemma block_open_step:
  assumes "\<not> in_docstring st" and "prefix TDQ (strip line) \<or> prefix TSQ (strip line)"
    and "d = (if contains line TDQ then TDQ else TSQ)"
    and "\<not> (2 \<le> count_sub (strip line) d \<and> 6 < length (strip line))"
  shows "scan_line isalpha client console st fx i line =
      (Inr (st\<lparr>in_docstring := True, docstring_delimiter := Some d,
                docstring_lines := [line], docstring_start_idx := i\<rparr>), fx)"
  using assms by (auto simp: scan_line_def Let_def)

lemma plain_line_step:
  assumes "\<not> in_docstring st" and "\<not> (prefix TDQ (strip line) \<or> prefix TSQ (strip line))"
    and "HASH \<notin> set line"
  shows "scan_line isalpha client console st fx i line =
      (Inr (st\<lparr>translated_lines := translated_lines st @ [line]\<rparr>), fx)"
  using assms by (simp add: scan_line_def Let_def)

lemma block_close_step:
  assumes "in_docstring st" and "docstring_delimiter st = Some d" and "contains (strip line) d"
    and "doc_content = join_nl (doc_content_lines d (docstring_lines st @ [line]))"
  shows "scan_line isalpha client console st fx i line =
      (if doc_content = [] \<or> contains_chinese doc_content
       then (Inr (st\<lparr>translated_lines := translated_lines st @ docstring_lines st @ [line],
                    in_docstring := False, docstring_lines := []\<rparr>), fx)
       else (case translate_text isalpha client console fx doc_content (u ''docstring'') of
               (Inl e, fx') \<Rightarrow> (Inl e, fx')
             | (Inr result, fx') \<Rightarrow>
                 (Inr (st\<lparr>translated_lines := translated_lines st @
                          block_lines (indent_of (hd (docstring_lines st @ [line]))) d result,
                          in_docstring := False, docstring_lines := []\<rparr>), fx')))"
  using assms by (auto simp: scan_line_def Let_def block_lines_def split: prod.splits sum.splits)

lemma block_inside_step:
  assumes "in_docstring st" and "docstring_delimiter st = Some d" and "\<not> contains (strip line) d"
  shows "scan_line isalpha client console st fx i line =
      (Inr (st\<lparr>docstring_lines := docstring_lines st @ [line]\<rparr>), fx)"
  using assms by (simp add: scan_line_def Let_def)

text \<open>
  C9. For a line read outside a block whose stripped form starts with a triple-quote
  delimiter, the delimiter the scan works with is \<open>TDQ\<close> (three double quotes) when
  that occurs anywhere in the raw line, and \<open>TSQ\<close> (three single quotes) otherwise: it
  is the delimiter counted to tell a single-line docstring from the opening of a block,
  the delimiter recorded when a block opens, and the one written around the text when
  the line is rebuilt as a single-line docstring. The step raises only when
  \<open>translate_text\<close> does, on a single-line docstring.
\<close>

theorem recorded_delimiter:
  assumes "\<not> in_docstring st" and "prefix TDQ (strip line) \<or> prefix TSQ (strip line)"
  shows "let d = (if (\<exists>a b. line = a @ TDQ @ b) then TDQ else TSQ) in
     (\<exists>st' fx'. scan_line isalpha client console st fx i line = (Inr st', fx') \<and>
        (in_docstring st' \<longleftrightarrow> \<not> (2 \<le> count_sub (strip line) d \<and> 6 < length (strip line))) \<and>
        (in_docstring st' \<longrightarrow>
           docstring_delimiter st' = Some d \<and> docstring_lines st' = [line] \<and>
           translated_lines st' = translated_lines st) \<and>
        (\<not> in_docstring st' \<longrightarrow>
           translated_lines st' = translated_lines st @ [line] \<or>
           (\<exists>t. translated_lines st' = translated_lines st @ [replicate (indent_of line) SPACE @ d @ t @ d])))
     \<or>
     (\<exists>e fx'. scan_line isalpha client console st fx i line = (Inl e, fx') \<and>
        2 \<le> count_sub (strip line) d \<and> 6 < length (strip line) \<and>
        translate_text isalpha client console fx (strip_chars d (strip line)) (u ''docstring'') = (Inl e, fx'))"
proof -
  define d where "d = (if contains line TDQ then TDQ else TSQ)"
  have dd: "(if (\<exists>a b. line = a @ TDQ @ b) then TDQ else TSQ) = d"
    by (simp add: d_def contains_iff)
  show ?thesis
  proof (cases "2 \<le> count_sub (strip line) d \<and> 6 < length (strip line)")
    case False
    from block_open_step[OF assms d_def False, of isalpha client console fx i]
    show ?thesis unfolding dd Let_def using False by simp
  next
    case True
    define doc_content where "doc_content = strip_chars d (strip line)"
    note step = single_line_docstring_step[OF assms d_def _ _ doc_content_def, of isalpha client console fx i]
    show ?thesis
    proof (cases "doc_content = [] \<or> contains_chinese doc_content")
      case verbatim: True
      with step True assms(1) show ?thesis unfolding dd Let_def by simp
    next
      case translate: False
      obtain r fx' where t: "translate_text isalpha client console fx doc_content (u ''docstring'') = (r, fx')"
        by (cases "translate_text isalpha client console fx doc_content (u ''docstring'')") auto
      show ?thesis
      proof (cases r)
        case (Inl e)
        with step True translate t show ?thesis unfolding dd Let_def doc_content_def by simp
      next
        case (Inr result)
        with step True translate t assms(1) show ?thesis unfolding dd Let_def by auto
      qed
    qed
  qed
qed

text \<open>
  A line that opens with three single quotes and holds three double quotes later opens
  a block under the double-quote delimiter.
\<close>

theorem recorded_delimiter_witness:
  "\<exists>st' fx'. scan_line isalpha_basic failing_backend ascii_console initial_state no_effects 0
       (TSQ @ u ''abc '' @ TDQ) = (Inr st', fx') \<and>
      in_docstring st' \<and> docstring_delimiter st' = Some TDQ"
proof -
  have c: "\<exists>a b. TSQ @ u ''abc '' @ TDQ = a @ TDQ @ b"
    by (rule exI[of _ "TSQ @ u ''abc ''"], rule exI[of _ "[]"]) simp
  have p: "prefix TDQ (strip (TSQ @ u ''abc '' @ TDQ)) \<or> prefix TSQ (strip (TSQ @ u ''abc '' @ TDQ))"
    by (simp add: u_def char_defs strip_defs)
  have n: "\<not> (2 \<le> count_sub (strip (TSQ @ u ''abc '' @ TDQ)) TDQ \<and> 6 < length (strip (TSQ @ u ''abc '' @ TDQ)))"
    by (simp add: u_def char_defs strip_defs count_sub.simps)
  have i: "\<not> in_docstring initial_state" by (simp add: initial_state_def)
  from recorded_delimiter[OF i p, of isalpha_basic failing_backend ascii_console no_effects 0]
  show ?thesis using c n by (auto simp: Let_def)
qed

text \<open>
  A line whose stripped form is the recorded delimiter, a body and the delimiter again,
  where the body neither begins nor ends with the delimiter's quote character, is a
  single-line docstring whose content is the body; so is the line made of \<open>Hello world\<close>
  between two double-quote delimiters.
\<close>

lemma wrapped_docstring_step:
  assumes "\<not> in_docstring st"
    and "strip line = d @ body @ d"
    and "d = TDQ \<or> d = TSQ \<and> \<not> contains line TDQ"
    and "body \<noteq> []" and "hd body \<notin> set d" and "last body \<notin> set d"
  shows "scan_line isalpha client console st fx i line =
     (if contains_chinese body then (Inr (st\<lparr>translated_lines := translated_lines st @ [line]\<rparr>), fx)
      else (case translate_text isalpha client console fx body (u ''docstring'') of
              (Inl e, fx') \<Rightarrow> (Inl e, fx')
            | (Inr result, fx') \<Rightarrow>
                (Inr (st\<lparr>translated_lines := translated_lines st @
                         [replicate (indent_of line) SPACE @ d @ result @ d]\<rparr>), fx')))"
proof -
  from assms(3) have dne: "d \<noteq> []" and len: "length d = 3" by (auto simp: TDQ_def TSQ_def)
  from assms(3) obtain q where q: "set d = {q}" by (auto simp: TDQ_def TSQ_def)
  have pre: "prefix TDQ (strip line) \<or> prefix TSQ (strip line)"
    using assms(2,3) by auto
  have "contains (strip line) d" unfolding contains_iff assms(2) by (metis append_Nil)
  then have "contains line d" by (rule contains_strip)
  with assms(3) have del: "d = (if contains line TDQ then TDQ else TSQ)" by auto
  have cnt: "2 \<le> count_sub (strip line) d"
    unfolding assms(2) using dne by (rule count_sub_wrapped)
  have ln: "6 < length (strip line)"
    unfolding assms(2) using len assms(4) by (cases body) auto
  have sc: "body = strip_chars d (strip line)"
    unfolding assms(2) using q assms(4,5,6) by (intro strip_chars_wrapped[symmetric]) auto
  from single_line_docstring_step[OF assms(1) pre del cnt ln sc, of isalpha client console fx i] assms(4)
  show ?thesis by simp
qed

lemma hello_world_docstring:
  "scan_line isalpha_basic (fixed_backend [0x4F60, 0x597D]) printing_console initial_state no_effects 0
       (TDQ @ u ''Hello world'' @ TDQ) =
     (Inr (initial_state\<lparr>translated_lines := [TDQ @ [0x4F60, 0x597D] @ TDQ]\<rparr>),
      no_effects\<lparr>sent := [build_prompt (u ''Hello world'') (u ''docstring'')]\<rparr>)"
  using wrapped_docstring_step[of initial_state "TDQ @ u ''Hello world'' @ TDQ" TDQ "u ''Hello world''"
      isalpha_basic "fixed_backend [0x4F60, 0x597D]" printing_console no_effects 0]
  by (simp add: u_def char_defs strip_defs contains_chinese_def isalpha_basic_def translate_text_def
      request_translation_def indent_of_def initial_state_def Let_def fixed_backend_def no_effects_def)

text \<open>
  C4 does not hold of the code. The line is a docstring in single quotes that mentions
  the double-quote delimiter once: \<open>TSQ\<close>, \<open>Use \<close>, \<open>TDQ\<close>, \<open> here\<close>, \<open>TSQ\<close>. Its stripped
  form starts with \<open>TSQ\<close>, holds \<open>TSQ\<close> twice and is longer than six characters, yet
  the scan takes \<open>TDQ\<close> for the delimiter because it occurs in the line, finds it once,
  and opens a block: no single-line docstring is found, the backend is not asked, and
  in a file where the line \<open>x = 1\<close> follows, both lines are held back to the end, so the
  translated content is empty.
\<close>

theorem single_quoted_docstring_opens_block:
  "prefix TSQ (strip (TSQ @ u ''Use '' @ TDQ @ u '' here'' @ TSQ)) \<and>
   2 \<le> count_sub (strip (TSQ @ u ''Use '' @ TDQ @ u '' here'' @ TSQ)) TSQ \<and>
   6 < length (strip (TSQ @ u ''Use '' @ TDQ @ u '' here'' @ TSQ)) \<and>
   scan_line isalpha_basic (fixed_backend [0x4F60, 0x597D]) printing_console initial_state no_effects 0
       (TSQ @ u ''Use '' @ TDQ @ u '' here'' @ TSQ) =
     (Inr (initial_state\<lparr>in_docstring := True, docstring_delimiter := Some TDQ,
            docstring_lines := [TSQ @ u ''Use '' @ TDQ @ u '' here'' @ TSQ]\<rparr>), no_effects) \<and>
   translate_content isalpha_basic (fixed_backend [0x4F60, 0x597D]) printing_console no_effects
       (TSQ @ u ''Use '' @ TDQ @ u '' here'' @ TSQ @ [NEWLINE] @ u ''x = 1'') = (Inr [], no_effects)"
  by (simp add: eval_defs translate_content_def)

text \<open>
  The content of a single-line docstring is the stripped line without its leading and
  trailing quote characters, not the text between two delimiters: a comma after the
  closing delimiter is taken into the span and is gone from the rebuilt line.
\<close>

lemma trailing_comma_joins_span:
  "scan_line isalpha_basic (fixed_backend [0x4F60, 0x597D]) printing_console initial_state no_effects 0
       (u ''    '' @ TDQ @ u ''first'' @ TDQ @ u '','') =
     (Inr (initial_state\<lparr>translated_lines := [u ''    '' @ TDQ @ [0x4F60, 0x597D] @ TDQ]\<rparr>),
      no_effects\<lparr>sent := [build_prompt (u ''first'' @ TDQ @ u '','') (u ''docstring'')]\<rparr>)"
  by (simp add: eval_defs)

section \<open>The lines of a span in the translated content\<close>

text \<open>
  The scan of a list of lines is the scan of its first part followed by the scan of the
  rest, and the lines written are never taken back: what one line appends to
  \<open>translated_lines\<close> is in the translated content of the file.
\<close>

lemma scan_lines_append:
  "scan_lines isalpha client console st fx i (xs @ ys) =
     (case scan_lines isalpha client console st fx i xs of
        (Inl e, fx') \<Rightarrow> (Inl e, fx')
      | (Inr st', fx') \<Rightarrow> scan_lines isalpha client console st' fx' (i + length xs) ys)"
  by (induction xs arbitrary: st fx i) (simp_all split: prod.splits sum.splits)

lemma scan_line_grows:
  assumes "scan_line isalpha client console st fx i line = (Inr st1, fx1)"
  shows "\<exists>new. translated_lines st1 = translated_lines st @ new"
proof (cases "in_docstring st")
  case idle: False
  show ?thesis
  proof (cases "prefix TDQ (strip line) \<or> prefix TSQ (strip line)")
    case tq: True
    define d where "d = (if contains line TDQ then TDQ else TSQ)"
    show ?thesis
    proof (cases "2 \<le> count_sub (strip line) d \<and> 6 < length (strip line)")
      case True
      from single_line_docstring_step[OF idle tq d_def _ _ refl, of isalpha client console fx i] True assms
      show ?thesis by (auto split: if_splits prod.splits sum.splits)
    next
      case False
      from block_open_step[OF idle tq d_def False, of isalpha client console fx i] assms
      show ?thesis by auto
    qed
  next
    case ntq: False
    show ?thesis
    proof (cases "HASH \<in> set line")
      case True
      obtain cp cm where s: "split_code_comment line = (cp, cm)"
        by (cases "split_code_comment line") auto
      from comment_line_step[OF idle ntq True s, of isalpha client console fx i] assms
      show ?thesis by (auto split: if_splits prod.splits sum.splits)
    next
      case False
      from plain_line_step[OF idle ntq False, of isalpha client console fx i] assms
      show ?thesis by auto
    qed
  qed
next
  case blk: True
  have "docstring_delimiter st \<noteq> None"
  proof
    assume "docstring_delimiter st = None"
    with blk have "scan_line isalpha client console st fx i line = (Inl TypeError, fx)"
      by (simp add: scan_line_def Let_def)
    with assms show False by simp
  qed
  then obtain d where d: "docstring_delimiter st = Some d" by auto
  show ?thesis
  proof (cases "contains (strip line) d")
    case True
    from block_close_step[OF blk d True refl, of isalpha client console fx i] assms
    show ?thesis by (auto split: if_splits prod.splits sum.splits)
  next
    case False
    from block_inside_step[OF blk d False, of isalpha client console fx i] assms
    show ?thesis by auto
  qed
qed

lemma scan_lines_grows:
  "scan_lines isalpha client console st fx i lines = (Inr st', fx') \<Longrightarrow>
   \<exists>new. translated_lines st' = translated_lines st @ new"
proof (induction lines arbitrary: st fx i)
  case Nil
  then show ?case by simp
next
  case (Cons line rest)
  obtain r1 fx1 where r1: "scan_line isalpha client console st fx i line = (r1, fx1)"
    by (cases "scan_line isalpha client console st fx i line") auto
  with Cons.prems obtain st1 where st1: "r1 = Inr st1" by (cases r1) auto
  with r1 Cons.prems have rest: "scan_lines isalpha client console st1 fx1 (Suc i) rest = (Inr st', fx')"
    by simp
  from scan_line_grows[OF r1[unfolded st1]] obtain n1 where "translated_lines st1 = translated_lines st @ n1"
    by blast
  moreover from Cons.IH[OF rest] obtain n2 where "translated_lines st' = translated_lines st1 @ n2"
    by blast
  ultimately have "translated_lines st' = translated_lines st @ (n1 @ n2)" by simp
  then show ?case by blast
qed

lemma output_through_line:
  assumes lines: "split_nl content = pre @ line # post"
    and pre: "scan_lines isalpha client console initial_state fx 0 pre = (Inr st, fx1)"
    and step: "scan_line isalpha client console st fx1 (length pre) line = (Inr st1, fx2)"
    and out: "translate_content isalpha client console fx content = (Inr out, fx')"
  shows "\<exists>tail. out = join_nl (translated_lines st1 @ tail)"
proof -
  have "scan_lines isalpha client console initial_state fx 0 (pre @ line # post) =
        scan_lines isalpha client console st1 fx2 (Suc (length pre)) post"
    using pre step by (simp add: scan_lines_append)
  with out lines obtain st2 where
    run: "scan_lines isalpha client console st1 fx2 (Suc (length pre)) post = (Inr st2, fx')"
    and o: "out = join_nl (translated_lines st2)"
    by (auto simp: translate_content_def split: prod.splits sum.splits)
  from scan_lines_grows[OF run] o show ?thesis by auto
qed

text \<open>
  C2, as the code has it. The scan has no flag for a translation that was applied and
  never compares the result with the span. Take a file, one of its lines, and the state
  \<open>st\<close> the scan is in when it reaches that line. If the span of the line (the comment
  part, the content of a single-line docstring, or the content of the block this line
  closes) is empty or contains a Chinese character, the translated content of the file
  holds the original line or lines of the span at that place, as they are. Otherwise,
  when \<open>translate_text\<close> returns a result that is not empty, also one equal to the span,
  the translated content holds at that place the lines rebuilt from the result: the code
  part, two blanks, \<open>#\<close>, a blank and the result for a comment; the indent, the
  delimiter, the result and the delimiter for a single-line docstring; a delimiter line,
  the non-blank lines of the result, indented, and a delimiter line for a block. Nothing
  is stated about an empty result.
\<close>

theorem span_lines_in_output:
  assumes "split_nl content = pre @ line # post"
    and "scan_lines isalpha client console initial_state fx 0 pre = (Inr st, fx1)"
    and "translate_content isalpha client console fx content = (Inr out, fx')"
  shows
   "(\<not> in_docstring st \<and> \<not> (prefix TDQ (strip line) \<or> prefix TSQ (strip line)) \<and> HASH \<in> set line \<and>
     split_code_comment line = (code_part, comment_part) \<longrightarrow>
       (comment_part = [] \<or> contains_chinese comment_part \<longrightarrow>
          (\<exists>tail. out = join_nl (translated_lines st @ [line] @ tail))) \<and>
       (comment_part \<noteq> [] \<and> \<not> contains_chinese comment_part \<and> result \<noteq> [] \<and>
        fst (translate_text isalpha client console fx1 comment_part (u ''comment'')) = Inr result \<longrightarrow>
          (\<exists>tail. out = join_nl (translated_lines st @
                      [code_part @ [SPACE, SPACE, HASH, SPACE] @ result] @ tail))))
    \<and>
    (\<not> in_docstring st \<and> (prefix TDQ (strip line) \<or> prefix TSQ (strip line)) \<and>
     d = (if contains line TDQ then TDQ else TSQ) \<and>
     2 \<le> count_sub (strip line) d \<and> 6 < length (strip line) \<and>
     doc_content = strip_chars d (strip line) \<longrightarrow>
       (doc_content = [] \<or> contains_chinese doc_content \<longrightarrow>
          (\<exists>tail. out = join_nl (translated_lines st @ [line] @ tail))) \<and>
       (doc_content \<noteq> [] \<and> \<not> contains_chinese doc_content \<and> result \<noteq> [] \<and>
        fst (translate_text isalpha client console fx1 doc_content (u ''docstring'')) = Inr result \<longrightarrow>
          (\<exists>tail. out = join_nl (translated_lines st @
                      [replicate (indent_of line) SPACE @ d @ result @ d] @ tail))))
    \<and>
    (in_docstring st \<and> docstring_delimiter st = Some d \<and> contains (strip line) d \<and>
     doc_content = join_nl (doc_content_lines d (docstring_lines st @ [line])) \<longrightarrow>
       (doc_content = [] \<or> contains_chinese doc_content \<longrightarrow>
          (\<exists>tail. out = join_nl (translated_lines st @ docstring_lines st @ [line] @ tail))) \<and>
       (doc_content \<noteq> [] \<and> \<not> contains_chinese doc_content \<and> result \<noteq> [] \<and>
        fst (translate_text isalpha client console fx1 doc_content (u ''docstring'')) = Inr result \<longrightarrow>
          (\<exists>tail. out = join_nl (translated_lines st @
                      block_lines (indent_of (hd (docstring_lines st @ [line]))) d result @ tail))))"
proof -
  note through = output_through_line[OF assms(1,2) _ assms(3)]
  have comment: "\<exists>tail. out = join_nl (translated_lines st @ region @ tail)"
    if "scan_line isalpha client console st fx1 (length pre) line =
          (Inr (st\<lparr>translated_lines := translated_lines st @ region\<rparr>), fx2)" for region fx2
    using through[OF that] by simp
  have block: "\<exists>tail. out = join_nl (translated_lines st @ region @ tail)"
    if "scan_line isalpha client console st fx1 (length pre) line =
          (Inr (st\<lparr>translated_lines := translated_lines st @ region,
                    in_docstring := False, docstring_lines := []\<rparr>), fx2)" for region fx2
    using through[OF that] by simp
  show ?thesis
  proof (intro conjI impI; (elim conjE)?)
    assume a: "\<not> in_docstring st" "\<not> (prefix TDQ (strip line) \<or> prefix TSQ (strip line))"
      "HASH \<in> set line" "split_code_comment line = (code_part, comment_part)"
    note s = comment_line_step[OF a, of isalpha client console fx1 "length pre"]
    {
      assume "comment_part = [] \<or> contains_chinese comment_part"
      with s have "scan_line isalpha client console st fx1 (length pre) line =
          (Inr (st\<lparr>translated_lines := translated_lines st @ [line]\<rparr>), fx1)" by simp
      from comment[OF this] show "\<exists>tail. out = join_nl (translated_lines st @ [line] @ tail)" .
    }
    {
      assume "comment_part \<noteq> []" "\<not> contains_chinese comment_part"
        and r: "fst (translate_text isalpha client console fx1 comment_part (u ''comment'')) = Inr result"
      with s have "scan_line isalpha client console st fx1 (length pre) line =
          (Inr (st\<lparr>translated_lines := translated_lines st @
                    [code_part @ [SPACE, SPACE, HASH, SPACE] @ result]\<rparr>),
           snd (translate_text isalpha client console fx1 comment_part (u ''comment'')))"
        by (cases "translate_text isalpha client console fx1 comment_part (u ''comment'')") simp
      from comment[OF this]
      show "\<exists>tail. out = join_nl (translated_lines st @
                      [code_part @ [SPACE, SPACE, HASH, SPACE] @ result] @ tail)" .
    }
  next
    assume a: "\<not> in_docstring st" "prefix TDQ (strip line) \<or> prefix TSQ (strip line)"
      "d = (if contains line TDQ then TDQ else TSQ)"
      "2 \<le> count_sub (strip line) d" "6 < length (strip line)"
      "doc_content = strip_chars d (strip line)"
    note s = single_line_docstring_step[OF a, of isalpha client console fx1 "length pre"]
    {
      assume "doc_content = [] \<or> contains_chinese doc_content"
      with s have "scan_line isalpha client console st fx1 (length pre) line =
          (Inr (st\<lparr>translated_lines := translated_lines st @ [line]\<rparr>), fx1)" by simp
      from comment[OF this] show "\<exists>tail. out = join_nl (translated_lines st @ [line] @ tail)" .
    }
    {
      assume "doc_content \<noteq> []" "\<not> contains_chinese doc_content"
        and r: "fst (translate_text isalpha client console fx1 doc_content (u ''docstring'')) = Inr result"
      with s have "scan_line isalpha client console st fx1 (length pre) line =
          (Inr (st\<lparr>translated_lines := translated_lines st @
                    [replicate (indent_of line) SPACE @ d @ result @ d]\<rparr>),
           snd (translate_text isalpha client console fx1 doc_content (u ''docstring'')))"
        by (cases "translate_text isalpha client console fx1 doc_content (u ''docstring'')") simp
      from comment[OF this]
      show "\<exists>tail. out = join_nl (translated_lines st @
                      [replicate (indent_of line) SPACE @ d @ result @ d] @ tail)" .
    }
  next
    assume a: "in_docstring st" "docstring_delimiter st = Some d" "contains (strip line) d"
      "doc_content = join_nl (doc_content_lines d (docstring_lines st @ [line]))"
    note s = block_close_step[OF a, of isalpha client console fx1 "length pre"]
    {
      assume "doc_content = [] \<or> contains_chinese doc_content"
      with s have "scan_line isalpha client console st fx1 (length pre) line =
          (Inr (st\<lparr>translated_lines := translated_lines st @ (docstring_lines st @ [line]),
                    in_docstring := False, docstring_lines := []\<rparr>), fx1)" by simp
      from block[OF this]
      show "\<exists>tail. out = join_nl (translated_lines st @ docstring_lines st @ [line] @ tail)" by simp
    }
    {
      assume "doc_content \<noteq> []" "\<not> contains_chinese doc_content"
        and r: "fst (translate_text isalpha client console fx1 doc_content (u ''docstring'')) = Inr result"
      with s have "scan_line isalpha client console st fx1 (length pre) line =
          (Inr (st\<lparr>translated_lines := translated_lines st @
                    block_lines (indent_of (hd (docstring_lines st @ [line]))) d result,
                    in_docstring := False, docstring_lines := []\<rparr>),
           snd (translate_text isalpha client console fx1 doc_content (u ''docstring'')))"
        by (cases "translate_text isalpha client console fx1 doc_content (u ''docstring'')") simp
      from block[OF this]
      show "\<exists>tail. out = join_nl (translated_lines st @
                      block_lines (indent_of (hd (docstring_lines st @ [line]))) d result @ tail)" .
    }
  qed
qed

text \<open>
  In the file \<open>x = 1 # set x\<close>, with a backend that answers \<open>set x\<close>, the result equals
  the span, and the translated content is the rebuilt line.
\<close>

theorem span_lines_in_output_witness:
  "fst (translate_text isalpha_basic (fixed_backend (u ''set x'')) printing_console no_effects
          (u ''set x'') (u ''comment'')) = Inr (u ''set x'') \<and>
   (\<exists>tail. u ''x = 1  # set x'' =
      join_nl (translated_lines initial_state @ [u ''x = 1'' @ [SPACE, SPACE, HASH, SPACE] @ u ''set x''] @ tail))"
proof -
  let ?B = "fixed_backend (u ''set x'')"
  have l: "split_nl (u ''x = 1 # set x'') = [] @ u ''x = 1 # set x'' # []"
    by (simp add: u_def char_defs)
  have p: "scan_lines isalpha_basic ?B printing_console initial_state no_effects 0 [] =
           (Inr initial_state, no_effects)" by simp
  have o: "translate_content isalpha_basic ?B printing_console no_effects (u ''x = 1 # set x'') =
           (Inr (u ''x = 1  # set x''), no_effects\<lparr>sent := [build_prompt (u ''set x'') (u ''comment'')]\<rparr>)"
    by (simp add: eval_defs translate_content_def)
  have s: "split_code_comment (u ''x = 1 # set x'') = (u ''x = 1'', u ''set x'')"
    by (simp add: u_def split_code_comment_def split_loop.simps char_defs strip_defs)
  have t: "fst (translate_text isalpha_basic ?B printing_console no_effects (u ''set x'') (u ''comment'')) =
           Inr (u ''set x'')"
    by (simp add: eval_defs)
  have h: "\<not> in_docstring initial_state \<and>
           \<not> (prefix TDQ (strip (u ''x = 1 # set x'')) \<or> prefix TSQ (strip (u ''x = 1 # set x''))) \<and>
           HASH \<in> set (u ''x = 1 # set x'')"
    by (simp add: u_def initial_state_def char_defs strip_defs)
  have c: "u ''set x'' \<noteq> [] \<and> \<not> contains_chinese (u ''set x'')"
    by (simp add: u_def contains_chinese_def)
  from span_lines_in_output[OF l p o, where code_part = "u ''x = 1''" and comment_part = "u ''set x''"
      and result = "u ''set x''"] h s t c
  show ?thesis by blast
qed

text \<open>
  C2, as the claim states it, fails on the file \<open>x = 1 # set x\<close> with a backend that
  answers \<open>set x\<close>: the result is identical to the span, and the line is written with
  two blanks before \<open>#\<close>, not as it was.
\<close>

theorem unchanged_translation_rewrites_line:
  "fst (translate_text isalpha_basic (fixed_backend (u ''set x'')) printing_console no_effects
          (u ''set x'') (u ''comment'')) = Inr (u ''set x'') \<and>
   fst (translate_content isalpha_basic (fixed_backend (u ''set x'')) printing_console no_effects
          (u ''x = 1 # set x'')) = Inr (u ''x = 1  # set x'') \<and>
   u ''x = 1  # set x'' \<noteq> u ''x = 1 # set x''"
  by (simp add: eval_defs translate_content_def)

section \<open>The scan of a whole file\<close>

lemma split_nl_not_Nil [simp]: "split_nl s \<noteq> []"
  by (induction s) (auto split: list.splits)

lemma join_nl_Cons_Cons: "join_nl ((c # l) # ls) = c # join_nl (l # ls)"
  by (cases ls) simp_all

lemma join_nl_Nil_Cons: "ls \<noteq> [] \<Longrightarrow> join_nl ([] # ls) = NEWLINE # join_nl ls"
  by (cases ls) simp_all

lemma join_split_nl: "join_nl (split_nl s) = s"
proof (induction s)
  case Nil
  then show ?case by simp
next
  case (Cons c cs)
  show ?case
  proof (cases "c = NEWLINE")
    case True
    then show ?thesis using Cons by (simp add: join_nl_Nil_Cons)
  next
    case False
    obtain l ls where "split_nl cs = l # ls" by (cases "split_nl cs") auto
    with False Cons show ?thesis by (simp add: join_nl_Cons_Cons)
  qed
qed

lemma scan_line_kept:
  assumes inv: "in_docstring st \<longrightarrow> docstring_delimiter st \<noteq> None"
    and sp: "\<forall>s \<in> set (spans_from (in_docstring st) (docstring_delimiter st) (docstring_lines st) (line # rest)).
           s \<noteq> [] \<longrightarrow> contains_chinese s"
  shows "\<exists>st1. scan_line isalpha client console st fx i line = (Inr st1, fx) \<and>
         translated_lines st1 @ pending st1 = translated_lines st @ pending st @ [line] \<and>
         (in_docstring st1 \<longrightarrow> docstring_delimiter st1 \<noteq> None) \<and>
         (\<forall>s \<in> set (spans_from (in_docstring st1) (docstring_delimiter st1) (docstring_lines st1) rest).
            s \<noteq> [] \<longrightarrow> contains_chinese s)"
proof (cases "in_docstring st")
  case idle: False
  show ?thesis
  proof (cases "prefix TDQ (strip line) \<or> prefix TSQ (strip line)")
    case tq: True
    define d where "d = (if contains line TDQ then TDQ else TSQ)"
    show ?thesis
    proof (cases "2 \<le> count_sub (strip line) d \<and> 6 < length (strip line)")
      case single: True
      define doc_content where "doc_content = strip_chars d (strip line)"
      have "spans_from (in_docstring st) (docstring_delimiter st) (docstring_lines st) (line # rest) =
            doc_content # spans_from False (docstring_delimiter st) (docstring_lines st) rest"
        using idle tq single by (auto simp: Let_def d_def doc_content_def)
      with sp have c: "doc_content = [] \<or> contains_chinese doc_content"
        and r: "\<forall>s \<in> set (spans_from False (docstring_delimiter st) (docstring_lines st) rest).
                  s \<noteq> [] \<longrightarrow> contains_chinese s"
        by auto
      have "scan_line isalpha client console st fx i line =
            (Inr (st\<lparr>translated_lines := translated_lines st @ [line]\<rparr>), fx)"
        using single_line_docstring_step[OF idle tq d_def _ _ doc_content_def] single c by simp
      then show ?thesis using idle r by (simp add: pending_def)
    next
      case opens: False
      have "spans_from (in_docstring st) (docstring_delimiter st) (docstring_lines st) (line # rest) =
            spans_from True (Some d) [line] rest"
        using idle tq opens by (auto simp: Let_def d_def)
      with sp have r: "\<forall>s \<in> set (spans_from True (Some d) [line] rest). s \<noteq> [] \<longrightarrow> contains_chinese s"
        by simp
      from block_open_step[OF idle tq d_def opens, of isalpha client console fx i]
      show ?thesis using idle r by (simp add: pending_def)
    qed
  next
    case ntq: False
    show ?thesis
    proof (cases "HASH \<in> set line")
      case h: True
      obtain code_part comment_part where s: "split_code_comment line = (code_part, comment_part)"
        by (cases "split_code_comment line") auto
      have "spans_from (in_docstring st) (docstring_delimiter st) (docstring_lines st) (line # rest) =
            comment_part # spans_from False (docstring_delimiter st) (docstring_lines st) rest"
        using idle ntq h s by (simp add: Let_def)
      with sp have c: "comment_part = [] \<or> contains_chinese comment_part"
        and r: "\<forall>s \<in> set (spans_from False (docstring_delimiter st) (docstring_lines st) rest).
                  s \<noteq> [] \<longrightarrow> contains_chinese s"
        by auto
      have "scan_line isalpha client console st fx i line =
            (Inr (st\<lparr>translated_lines := translated_lines st @ [line]\<rparr>), fx)"
        using comment_line_step[OF idle ntq h s] c by simp
      then show ?thesis using idle r by (simp add: pending_def)
    next
      case nh: False
      have "spans_from (in_docstring st) (docstring_delimiter st) (docstring_lines st) (line # rest) =
            spans_from False (docstring_delimiter st) (docstring_lines st) rest"
        using idle ntq nh by (simp add: Let_def)
      with sp have r: "\<forall>s \<in> set (spans_from False (docstring_delimiter st) (docstring_lines st) rest).
                  s \<noteq> [] \<longrightarrow> contains_chinese s"
        by simp
      from plain_line_step[OF idle ntq nh, of isalpha client console fx i]
      show ?thesis using idle r by (simp add: pending_def)
    qed
  qed
next
  case blk: True
  with inv obtain d where d: "docstring_delimiter st = Some d" by auto
  show ?thesis
  proof (cases "contains (strip line) d")
    case closes: True
    define doc_content where "doc_content = join_nl (doc_content_lines d (docstring_lines st @ [line]))"
    have "spans_from (in_docstring st) (docstring_delimiter st) (docstring_lines st) (line # rest) =
          doc_content # spans_from False (docstring_delimiter st) [] rest"
      using blk d closes by (simp add: Let_def doc_content_def)
    with sp have c: "doc_content = [] \<or> contains_chinese doc_content"
      and r: "\<forall>s \<in> set (spans_from False (docstring_delimiter st) [] rest). s \<noteq> [] \<longrightarrow> contains_chinese s"
      by auto
    have "scan_line isalpha client console st fx i line =
          (Inr (st\<lparr>translated_lines := translated_lines st @ docstring_lines st @ [line],
                    in_docstring := False, docstring_lines := []\<rparr>), fx)"
      using block_close_step[OF blk d closes doc_content_def] c by simp
    then show ?thesis using blk r by (simp add: pending_def)
  next
    case inside: False
    have "spans_from (in_docstring st) (docstring_delimiter st) (docstring_lines st) (line # rest) =
          spans_from True (docstring_delimiter st) (docstring_lines st @ [line]) rest"
      using blk d inside by (simp add: Let_def)
    with sp have r: "\<forall>s \<in> set (spans_from True (docstring_delimiter st) (docstring_lines st @ [line]) rest).
                       s \<noteq> [] \<longrightarrow> contains_chinese s"
      by simp
    from block_inside_step[OF blk d inside, of isalpha client console fx i]
    show ?thesis using blk d r by (simp add: pending_def)
  qed
qed

lemma scan_lines_kept:
  assumes "in_docstring st \<longrightarrow> docstring_delimiter st \<noteq> None"
    and "\<forall>s \<in> set (spans_from (in_docstring st) (docstring_delimiter st) (docstring_lines st) lines).
           s \<noteq> [] \<longrightarrow> contains_chinese s"
  shows "\<exists>st'. scan_lines isalpha client console st fx i lines = (Inr st', fx) \<and>
           translated_lines st' @ pending st' = translated_lines st @ pending st @ lines"
  using assms
proof (induction lines arbitrary: st i)
  case Nil
  then show ?case by simp
next
  case (Cons line rest)
  from scan_line_kept[OF Cons.prems, of isalpha client console fx i]
  obtain st1 where r1: "scan_line isalpha client console st fx i line = (Inr st1, fx)"
    and a: "translated_lines st1 @ pending st1 = translated_lines st @ pending st @ [line]"
    and b: "in_docstring st1 \<longrightarrow> docstring_delimiter st1 \<noteq> None"
    and c: "\<forall>s \<in> set (spans_from (in_docstring st1) (docstring_delimiter st1) (docstring_lines st1) rest).
              s \<noteq> [] \<longrightarrow> contains_chinese s"
    by blast
  from Cons.IH[OF b c, of "Suc i"]
  obtain st' where r2: "scan_lines isalpha client console st1 fx (Suc i) rest = (Inr st', fx)"
    and d: "translated_lines st' @ pending st' = translated_lines st1 @ pending st1 @ rest"
    by blast
  from r1 r2 have "scan_lines isalpha client console st fx i (line # rest) = (Inr st', fx)" by simp
  moreover from a d have "translated_lines st' @ pending st' = translated_lines st @ pending st @ line # rest"
    by (metis append.assoc append_Cons append_Nil)
  ultimately show ?case by blast
qed

lemma chinese_content_unchanged:
  assumes "\<forall>s \<in> set (spans content). s \<noteq> [] \<longrightarrow> contains_chinese s"
    and "\<not> ends_in_block isalpha client console fx content"
  shows "translate_content isalpha client console fx content = (Inr content, fx)"
proof -
  from assms(1) have "\<forall>s \<in> set (spans_from (in_docstring initial_state) (docstring_delimiter initial_state)
        (docstring_lines initial_state) (split_nl content)). s \<noteq> [] \<longrightarrow> contains_chinese s"
    by (simp add: spans_def initial_state_def)
  from scan_lines_kept[OF _ this, of isalpha client console fx 0]
  obtain st' where run: "scan_lines isalpha client console initial_state fx 0 (split_nl content) = (Inr st', fx)"
    and k: "translated_lines st' @ pending st' =
            translated_lines initial_state @ pending initial_state @ split_nl content"
    by (auto simp: initial_state_def)
  from run assms(2) have idle: "\<not> in_docstring st'" by (simp add: ends_in_block_def)
  with k have "translated_lines st' = split_nl content"
    by (simp add: pending_def initial_state_def)
  with run show ?thesis
    by (simp add: translate_content_def join_split_nl)
qed

subsection \<open>What is sent comes from the spans\<close>

text \<open>
  \<open>spans\<close> lists the texts the scan hands to \<open>translate_text\<close>: every prompt that a pass
  over a file adds to the prompts sent is built from a span of that file.
\<close>

lemma translate_text_sent:
  "sent (snd (translate_text isalpha client console fx text context)) = sent fx \<or>
   sent (snd (translate_text isalpha client console fx text context)) = sent fx @ [build_prompt text context]"
  by (auto simp: translate_text_def Let_def print_message_def split: sum.splits option.splits)

lemma span_prompts_Cons:
  "span_prompts (s # ss) = {p. \<exists>context. p = build_prompt s context} \<union> span_prompts ss"
  by (auto simp: span_prompts_def)

lemma translated_step_sent:
  assumes "(case translate_text isalpha client console fx text context of
              (Inl e, fx') \<Rightarrow> (Inl e, fx')
            | (Inr result, fx') \<Rightarrow> (Inr (f result), fx')) = (r, fx1)"
  shows "set (sent fx1) \<subseteq> set (sent fx) \<union> {p. \<exists>context. p = build_prompt text context}"
proof -
  from assms have "fx1 = snd (translate_text isalpha client console fx text context)"
    by (auto split: prod.splits sum.splits)
  with translate_text_sent[of isalpha client console fx "text" "context"] show ?thesis by auto
qed

lemma scan_line_prompts:
  assumes run: "scan_line isalpha client console st fx i line = (r, fx1)"
  shows "set (sent fx1) \<subseteq> set (sent fx) \<union>
           span_prompts (spans_from (in_docstring st) (docstring_delimiter st) (docstring_lines st) (line # rest)) \<and>
         (\<forall>st1. r = Inr st1 \<longrightarrow>
           span_prompts (spans_from (in_docstring st1) (docstring_delimiter st1) (docstring_lines st1) rest) \<subseteq>
           span_prompts (spans_from (in_docstring st) (docstring_delimiter st) (docstring_lines st) (line # rest)))"
proof (cases "in_docstring st")
  case idle: False
  show ?thesis
  proof (cases "prefix TDQ (strip line) \<or> prefix TSQ (strip line)")
    case tq: True
    define d where "d = (if contains line TDQ then TDQ else TSQ)"
    show ?thesis
    proof (cases "2 \<le> count_sub (strip line) d \<and> 6 < length (strip line)")
      case single: True
      define doc_content where "doc_content = strip_chars d (strip line)"
      have sp: "spans_from (in_docstring st) (docstring_delimiter st) (docstring_lines st) (line # rest) =
            doc_content # spans_from False (docstring_delimiter st) (docstring_lines st) rest"
        using idle tq single by (auto simp: Let_def d_def doc_content_def)
      note step = single_line_docstring_step[OF idle tq d_def _ _ doc_content_def, of isalpha client console fx i]
      show ?thesis
      proof (cases "doc_content = [] \<or> contains_chinese doc_content")
        case True
        with step single run have "r = Inr (st\<lparr>translated_lines := translated_lines st @ [line]\<rparr>)" "fx1 = fx"
          by simp_all
        then show ?thesis unfolding sp span_prompts_Cons using idle by auto
      next
        case False
        with step single run have c: "(case translate_text isalpha client console fx doc_content (u ''docstring'') of
              (Inl e, fx') \<Rightarrow> (Inl e, fx')
            | (Inr result, fx') \<Rightarrow>
                (Inr (st\<lparr>translated_lines := translated_lines st @
                          [replicate (indent_of line) SPACE @ d @ result @ d]\<rparr>), fx')) = (r, fx1)"
          by simp
        from translated_step_sent[OF c]
        have s: "set (sent fx1) \<subseteq> set (sent fx) \<union> {p. \<exists>context. p = build_prompt doc_content context}" .
        from c have "\<forall>st1. r = Inr st1 \<longrightarrow> in_docstring st1 = in_docstring st \<and>
            docstring_delimiter st1 = docstring_delimiter st \<and> docstring_lines st1 = docstring_lines st"
          by (auto split: prod.splits sum.splits)
        with s show ?thesis unfolding sp span_prompts_Cons using idle by auto
      qed
    next
      case opens: False
      have sp: "spans_from (in_docstring st) (docstring_delimiter st) (docstring_lines st) (line # rest) =
            spans_from True (Some d) [line] rest"
        using idle tq opens by (auto simp: Let_def d_def)
      from block_open_step[OF idle tq d_def opens, of isalpha client console fx i] run
      have "r = Inr (st\<lparr>in_docstring := True, docstring_delimiter := Some d,
                      docstring_lines := [line], docstring_start_idx := i\<rparr>)" and "fx1 = fx"
        by simp_all
      then show ?thesis unfolding sp by simp
    qed
  next
    case ntq: False
    show ?thesis
    proof (cases "HASH \<in> set line")
      case h: True
      obtain code_part comment_part where s: "split_code_comment line = (code_part, comment_part)"
        by (cases "split_code_comment line") auto
      have sp: "spans_from (in_docstring st) (docstring_delimiter st) (docstring_lines st) (line # rest) =
            comment_part # spans_from False (docstring_delimiter st) (docstring_lines st) rest"
        using idle ntq h s by (simp add: Let_def)
      note step = comment_line_step[OF idle ntq h s, of isalpha client console fx i]
      show ?thesis
      proof (cases "comment_part = [] \<or> contains_chinese comment_part")
        case True
        with step run have "r = Inr (st\<lparr>translated_lines := translated_lines st @ [line]\<rparr>)" "fx1 = fx"
          by simp_all
        then show ?thesis unfolding sp span_prompts_Cons using idle by auto
      next
        case False
        with step run have c: "(case translate_text isalpha client console fx comment_part (u ''comment'') of
              (Inl e, fx') \<Rightarrow> (Inl e, fx')
            | (Inr result, fx') \<Rightarrow>
                (Inr (st\<lparr>translated_lines := translated_lines st @
                          [code_part @ [SPACE, SPACE, HASH, SPACE] @ result]\<rparr>), fx')) = (r, fx1)"
          by simp
        from translated_step_sent[OF c]
        have s': "set (sent fx1) \<subseteq> set (sent fx) \<union> {p. \<exists>context. p = build_prompt comment_part context}" .
        from c have "\<forall>st1. r = Inr st1 \<longrightarrow> in_docstring st1 = in_docstring st \<and>
            docstring_delimiter st1 = docstring_delimiter st \<and> docstring_lines st1 = docstring_lines st"
          by (auto split: prod.splits sum.splits)
        with s' show ?thesis unfolding sp span_prompts_Cons using idle by auto
      qed
    next
      case nh: False
      have sp: "spans_from (in_docstring st) (docstring_delimiter st) (docstring_lines st) (line # rest) =
            spans_from False (docstring_delimiter st) (docstring_lines st) rest"
        using idle ntq nh by (simp add: Let_def)
      from plain_line_step[OF idle ntq nh, of isalpha client console fx i] run
      have "r = Inr (st\<lparr>translated_lines := translated_lines st @ [line]\<rparr>)" and "fx1 = fx"
        by simp_all
      then show ?thesis unfolding sp using idle by simp
    qed
  qed
next
  case blk: True
  show ?thesis
  proof (cases "docstring_delimiter st")
    case None
    with blk have "scan_line isalpha client console st fx i line = (Inl TypeError, fx)"
      by (simp add: scan_line_def Let_def)
    with run show ?thesis by auto
  next
    case (Some d)
    show ?thesis
    proof (cases "contains (strip line) d")
      case closes: True
      define doc_content where "doc_content = join_nl (doc_content_lines d (docstring_lines st @ [line]))"
      have sp: "spans_from (in_docstring st) (docstring_delimiter st) (docstring_lines st) (line # rest) =
            doc_content # spans_from False (docstring_delimiter st) [] rest"
        using blk Some closes by (simp add: Let_def doc_content_def)
      note step = block_close_step[OF blk Some closes doc_content_def, of isalpha client console fx i]
      show ?thesis
      proof (cases "doc_content = [] \<or> contains_chinese doc_content")
        case True
        with step run have "r = Inr (st\<lparr>translated_lines := translated_lines st @ docstring_lines st @ [line],
                    in_docstring := False, docstring_lines := []\<rparr>)" "fx1 = fx"
          by simp_all
        then show ?thesis unfolding sp span_prompts_Cons by auto
      next
        case False
        with step run have c: "(case translate_text isalpha client console fx doc_content (u ''docstring'') of
              (Inl e, fx') \<Rightarrow> (Inl e, fx')
            | (Inr result, fx') \<Rightarrow>
                (Inr (st\<lparr>translated_lines := translated_lines st @
                          block_lines (indent_of (hd (docstring_lines st @ [line]))) d result,
                          in_docstring := False, docstring_lines := []\<rparr>), fx')) = (r, fx1)"
          by simp
        from translated_step_sent[OF c]
        have s: "set (sent fx1) \<subseteq> set (sent fx) \<union> {p. \<exists>context. p = build_prompt doc_content context}" .
        from c have "\<forall>st1. r = Inr st1 \<longrightarrow> in_docstring st1 = False \<and>
            docstring_delimiter st1 = docstring_delimiter st \<and> docstring_lines st1 = []"
          by (auto split: prod.splits sum.splits)
        with s show ?thesis unfolding sp span_prompts_Cons by auto
      qed
    next
      case inside: False
      have sp: "spans_from (in_docstring st) (docstring_delimiter st) (docstring_lines st) (line # rest) =
            spans_from True (docstring_delimiter st) (docstring_lines st @ [line]) rest"
        using blk Some inside by (simp add: Let_def)
      from block_inside_step[OF blk Some inside, of isalpha client console fx i] run
      have "r = Inr (st\<lparr>docstring_lines := docstring_lines st @ [line]\<rparr>)" and "fx1 = fx"
        by simp_all
      then show ?thesis unfolding sp using blk by simp
    qed
  qed
qed

lemma scan_lines_prompts:
  "scan_lines isalpha client console st fx i lines = (r, fx') \<Longrightarrow>
   set (sent fx') \<subseteq> set (sent fx) \<union>
     span_prompts (spans_from (in_docstring st) (docstring_delimiter st) (docstring_lines st) lines)"
proof (induction lines arbitrary: st fx i)
  case Nil
  then show ?case by simp
next
  case (Cons line rest)
  obtain r1 fx1 where r1: "scan_line isalpha client console st fx i line = (r1, fx1)"
    by (cases "scan_line isalpha client console st fx i line") auto
  note step = scan_line_prompts[OF r1, of rest]
  show ?case
  proof (cases r1)
    case (Inl e)
    with r1 Cons.prems have "fx' = fx1" by simp
    with step show ?thesis by blast
  next
    case (Inr st1)
    with r1 Cons.prems have "scan_lines isalpha client console st1 fx1 (Suc i) rest = (r, fx')" by simp
    from Cons.IH[OF this] step Inr show ?thesis by blast
  qed
qed

lemma prompts_come_from_spans:
  assumes "translate_content isalpha client console fx content = (r, fx')"
    and "p \<in> set (sent fx')" and "p \<notin> set (sent fx)"
  shows "\<exists>s \<in> set (spans content). \<exists>context. p = build_prompt s context"
proof -
  obtain r0 fx0 where run: "scan_lines isalpha client console initial_state fx 0 (split_nl content) = (r0, fx0)"
    by (cases "scan_lines isalpha client console initial_state fx 0 (split_nl content)") auto
  with assms(1) have "fx0 = fx'" by (cases r0) (simp_all add: translate_content_def)
  with scan_lines_prompts[OF run] assms(2,3)
  have "p \<in> span_prompts (spans content)" by (auto simp: spans_def initial_state_def)
  then show ?thesis by (simp add: span_prompts_def)
qed

section \<open>The file pass\<close>

text \<open>Printing sends no prompt; the sample file system; a write is never a no-op.\<close>

lemma print_message_sent [simp]: "sent (snd (print_message console fx m)) = sent fx"
  by (simp add: print_message_def split: option.splits)

lemma print_messages_sent [simp]: "sent (snd (print_messages console fx ms)) = sent fx"
proof (induction ms arbitrary: fx)
  case Nil
  then show ?case by simp
next
  case (Cons m ms)
  show ?case
  proof (cases "print_message console fx m")
    case (Pair r fx1)
    have "sent fx1 = sent fx" using print_message_sent[of console fx m] Pair by simp
    with Cons Pair show ?thesis by (cases r) simp_all
  qed
qed

lemma read_file_single_file [simp]: "read_file (single_file p c) p = Some (universal_newlines c)"
  by (simp add: read_file_def single_file_def)

lemma read_only_single_file [simp]: "read_only (single_file p c) q = False"
  by (simp add: single_file_def)

lemma read_file_write_text [simp]: "read_file (write_text fs p t) p = Some (universal_newlines t)"
  by (simp add: read_file_def write_text_def)

lemma read_only_write_text [simp]: "read_only (write_text fs p t) = read_only fs"
  by (simp add: write_text_def)

lemma read_only_open_write [simp]: "read_only (open_write fs p) = read_only fs"
  by (simp add: open_write_def)

lemma open_write_neq [simp]: "open_write fs p \<noteq> fs"
proof
  assume "open_write fs p = fs"
  then have "writes (open_write fs p) = writes fs" by simp
  then show False by (simp add: open_write_def)
qed

lemma write_text_open_write_neq [simp]: "write_text (open_write fs p) p t \<noteq> fs"
proof
  assume "write_text (open_write fs p) p t = fs"
  then have "writes (write_text (open_write fs p) p t) = writes fs" by simp
  then show False by (simp add: open_write_def write_text_def)
qed

text \<open>The file system and the prompts sent after \<open>translate_file\<close>.\<close>

lemma print_message_sentD: "print_message console fx m = (r, fx') \<Longrightarrow> sent fx' = sent fx"
  using print_message_sent[of console fx m] by simp

lemma print_case_fs:
  "fst (snd (case p of (Inl e, fx2) \<Rightarrow> (Inl e, F, fx2) | (Inr x, fx2) \<Rightarrow> (Inr b, F, fx2))) = F"
  by (simp split: prod.splits sum.splits)

lemma print_case_sent:
  "sent (snd (snd (case p of (Inl e, fx2) \<Rightarrow> (Inl e, F, fx2) | (Inr x, fx2) \<Rightarrow> (Inr b, F, fx2)))) =
   sent (snd p)"
  by (simp split: prod.splits sum.splits)

lemma translate_file_try_fs:
  "fst (snd (translate_file_try isalpha client console fs fx file_path dry_run)) =
     (case read_file fs file_path of
        None \<Rightarrow> fs
      | Some content \<Rightarrow>
          (case fst (translate_content isalpha client console fx content) of
             Inl e \<Rightarrow> fs
           | Inr translated \<Rightarrow>
               if \<not> dry_run \<and> translated \<noteq> content \<and> \<not> read_only fs file_path
               then (if encodable translated
                     then write_text (open_write fs file_path) file_path translated
                     else open_write fs file_path)
               else fs))"
proof (cases "read_file fs file_path")
  case None
  then show ?thesis by (simp add: translate_file_try_def)
next
  case (Some content)
  obtain r fx1 where t: "translate_content isalpha client console fx content = (r, fx1)"
    by (cases "translate_content isalpha client console fx content") auto
  show ?thesis
  proof (cases r)
    case (Inl e)
    with Some t show ?thesis by (simp add: translate_file_try_def)
  next
    case (Inr translated)
    with Some t show ?thesis
      by (simp add: translate_file_try_def Let_def print_case_fs del: print_messages.simps)
  qed
qed

lemma translate_file_fs:
  "fst (snd (translate_file isalpha client console fs fx file_path dry_run)) =
     (case read_file fs file_path of
        None \<Rightarrow> fs
      | Some content \<Rightarrow>
          (case fst (translate_content isalpha client console fx content) of
             Inl e \<Rightarrow> fs
           | Inr translated \<Rightarrow>
               if \<not> dry_run \<and> translated \<noteq> content \<and> \<not> read_only fs file_path
               then (if encodable translated
                     then write_text (open_write fs file_path) file_path translated
                     else open_write fs file_path)
               else fs))"
proof -
  have "fst (snd (translate_file isalpha client console fs fx file_path dry_run)) =
        fst (snd (translate_file_try isalpha client console fs fx file_path dry_run))"
    by (simp add: translate_file_def split: prod.splits sum.splits)
  then show ?thesis by (simp only: translate_file_try_fs)
qed

lemma translate_file_try_sent:
  "sent (snd (snd (translate_file_try isalpha client console fs fx file_path dry_run))) =
     (case read_file fs file_path of
        None \<Rightarrow> sent fx
      | Some content \<Rightarrow> sent (snd (translate_content isalpha client console fx content)))"
proof (cases "read_file fs file_path")
  case None
  then show ?thesis by (simp add: translate_file_try_def)
next
  case (Some content)
  obtain r fx1 where t: "translate_content isalpha client console fx content = (r, fx1)"
    by (cases "translate_content isalpha client console fx content") auto
  show ?thesis
  proof (cases r)
    case (Inl e)
    with Some t show ?thesis by (simp add: translate_file_try_def)
  next
    case (Inr translated)
    with Some t show ?thesis
      by (simp add: translate_file_try_def Let_def print_case_sent del: print_messages.simps)
  qed
qed

lemma translate_file_sent:
  "sent (snd (snd (translate_file isalpha client console fs fx file_path dry_run))) =
     (case read_file fs file_path of
        None \<Rightarrow> sent fx
      | Some content \<Rightarrow> sent (snd (translate_content isalpha client console fx content)))"
proof -
  obtain r fs1 fx1 where t: "translate_file_try isalpha client console fs fx file_path dry_run = (r, fs1, fx1)"
    by (cases "translate_file_try isalpha client console fs fx file_path dry_run") auto
  have "sent (snd (snd (translate_file isalpha client console fs fx file_path dry_run))) = sent fx1"
  proof (cases r)
    case (Inr b)
    with t show ?thesis by (simp add: translate_file_def)
  next
    case (Inl e)
    with t show ?thesis
      by (auto simp: translate_file_def split: prod.splits sum.splits dest: print_message_sentD)
  qed
  also have "sent fx1 = sent (snd (snd (translate_file_try isalpha client console fs fx file_path dry_run)))"
    using t by simp
  finally show ?thesis by (simp only: translate_file_try_sent)
qed

text \<open>
  C5, as the code has it. Take a file whose scan does not end inside a block that was
  never closed, and in which every span the scan extracts is empty or contains a Chinese
  character. Then the translated content is the content of the file, no prompt is sent
  and nothing is printed by the scan, and \<open>translate_file\<close> leaves the file system as it
  is, whatever the backend would answer; it returns \<open>True\<close> when the console accepts the
  line that reports the file as skipped. A further pass over such a file changes
  nothing. A line read outside a block whose comment part contains a Chinese character
  is appended to the output as it is.
\<close>

theorem chinese_file_unchanged:
  "(read_file fs file_path = Some content \<and>
    (\<forall>s \<in> set (spans content). s \<noteq> [] \<longrightarrow> contains_chinese s) \<and>
    \<not> ends_in_block isalpha client console fx content \<longrightarrow>
    translate_content isalpha client console fx content = (Inr content, fx) \<and>
    fst (snd (translate_file isalpha client console fs fx file_path dry_run)) = fs \<and>
    sent (snd (snd (translate_file isalpha client console fs fx file_path dry_run))) = sent fx \<and>
    (console (printed fx) (if dry_run then DryRunSkipped file_path else Skipped file_path) = None \<longrightarrow>
       translate_file isalpha client console fs fx file_path dry_run =
         (Inr True, fs,
          fx\<lparr>printed := printed fx @ [if dry_run then DryRunSkipped file_path else Skipped file_path]\<rparr>)))
   \<and>
   (\<not> in_docstring st \<and> \<not> (prefix TDQ (strip line) \<or> prefix TSQ (strip line)) \<and> HASH \<in> set line \<and>
    contains_chinese (snd (split_code_comment line)) \<longrightarrow>
    scan_line isalpha client console st fx i line =
      (Inr (st\<lparr>translated_lines := translated_lines st @ [line]\<rparr>), fx))"
proof (intro conjI impI)
  assume a: "read_file fs file_path = Some content \<and>
    (\<forall>s \<in> set (spans content). s \<noteq> [] \<longrightarrow> contains_chinese s) \<and>
    \<not> ends_in_block isalpha client console fx content"
  then show tc: "translate_content isalpha client console fx content = (Inr content, fx)"
    using chinese_content_unchanged by blast
  from a tc show "fst (snd (translate_file isalpha client console fs fx file_path dry_run)) = fs"
    by (simp add: translate_file_fs)
  from a tc show "sent (snd (snd (translate_file isalpha client console fs fx file_path dry_run))) = sent fx"
    by (simp add: translate_file_sent)
  assume "console (printed fx) (if dry_run then DryRunSkipped file_path else Skipped file_path) = None"
  with a tc show "translate_file isalpha client console fs fx file_path dry_run =
         (Inr True, fs,
          fx\<lparr>printed := printed fx @ [if dry_run then DryRunSkipped file_path else Skipped file_path]\<rparr>)"
    by (auto simp: translate_file_def translate_file_try_def print_message_def)
next
  assume b: "\<not> in_docstring st \<and> \<not> (prefix TDQ (strip line) \<or> prefix TSQ (strip line)) \<and> HASH \<in> set line \<and>
    contains_chinese (snd (split_code_comment line))"
  then show "scan_line isalpha client console st fx i line =
      (Inr (st\<lparr>translated_lines := translated_lines st @ [line]\<rparr>), fx)"
    using comment_line_step[of st line "fst (split_code_comment line)" "snd (split_code_comment line)"
        isalpha client console fx i]
    by simp
qed

lemmas file_defs =
  translate_file_def translate_file_try_def translate_content_def encodable_def CR_def

theorem chinese_file_unchanged_witness:
  "translate_file isalpha_basic (fixed_backend (u ''never asked'')) printing_console
     (single_file (u ''a.py'')
        (u ''x = 1  # '' @ [0x8FD9, 0x662F, 0x4E2D, 0x6587] @ [NEWLINE] @ TDQ @ [0x6587, 0x6863] @ TDQ))
     no_effects (u ''a.py'') False =
   (Inr True,
    single_file (u ''a.py'')
        (u ''x = 1  # '' @ [0x8FD9, 0x662F, 0x4E2D, 0x6587] @ [NEWLINE] @ TDQ @ [0x6587, 0x6863] @ TDQ),
    \<lparr>sent = [], printed = [Skipped (u ''a.py'')]\<rparr>)"
proof -
  let ?c = "u ''x = 1  # '' @ [0x8FD9, 0x662F, 0x4E2D, 0x6587] @ [NEWLINE] @ TDQ @ [0x6587, 0x6863] @ TDQ"
  let ?B = "fixed_backend (u ''never asked'')"
  have r: "read_file (single_file (u ''a.py'') ?c) (u ''a.py'') = Some ?c"
    by (simp add: u_def char_defs CR_def)
  have l: "split_nl ?c = [u ''x = 1  # '' @ [0x8FD9, 0x662F, 0x4E2D, 0x6587], TDQ @ [0x6587, 0x6863] @ TDQ]"
    by (simp add: u_def char_defs)
  have s: "\<forall>s \<in> set (spans ?c). s \<noteq> [] \<longrightarrow> contains_chinese s"
    unfolding spans_def l by (simp add: eval_defs)
  have e: "\<not> ends_in_block isalpha_basic ?B printing_console no_effects ?c"
    unfolding ends_in_block_def l by (simp add: eval_defs)
  from chinese_file_unchanged[of "single_file (u ''a.py'') ?c" "u ''a.py''" ?c isalpha_basic
      ?B printing_console no_effects False]
  show ?thesis using r s e by (simp add: printing_console_def no_effects_def)
qed

text \<open>
  C5, as the claim states it, fails: nothing makes the backend answer in Chinese, or
  twice alike. With a backend that answers \<open>one\<close> and then \<open>two\<close>, the first pass over the
  file \<open># abc\<close> writes \<open>  # one\<close>, and the second pass over that output writes
  \<open>  # two\<close>.
\<close>

theorem second_pass_changes_file:
  "translate_file isalpha_basic counting_backend printing_console
       (single_file (u ''a.py'') (u ''# abc'')) no_effects (u ''a.py'') False =
     (Inr True,
      write_text (open_write (single_file (u ''a.py'') (u ''# abc'')) (u ''a.py'')) (u ''a.py'') (u ''  # one''),
      \<lparr>sent = [build_prompt (u ''abc'') (u ''comment'')], printed = [Translated (u ''a.py'')]\<rparr>) \<and>
   translate_file isalpha_basic counting_backend printing_console
       (write_text (open_write (single_file (u ''a.py'') (u ''# abc'')) (u ''a.py'')) (u ''a.py'') (u ''  # one''))
       \<lparr>sent = [build_prompt (u ''abc'') (u ''comment'')], printed = [Translated (u ''a.py'')]\<rparr>
       (u ''a.py'') False =
     (Inr True,
      write_text (open_write
        (write_text (open_write (single_file (u ''a.py'') (u ''# abc'')) (u ''a.py'')) (u ''a.py'') (u ''  # one''))
        (u ''a.py'')) (u ''a.py'') (u ''  # two''),
      \<lparr>sent = [build_prompt (u ''abc'') (u ''comment''), build_prompt (u ''one'') (u ''comment'')],
       printed = [Translated (u ''a.py''), Translated (u ''a.py'')]\<rparr>)"
  by (simp add: eval_defs file_defs)

text \<open>
  C1 does not hold of the code. The file has the line \<open>x = 1\<close>, a line that opens a
  block with the double-quote delimiter and \<open>Unterminated\<close>, and the line \<open>y = 2\<close>; the
  block is never closed. The lines held in \<open>docstring_lines\<close> are not appended after the
  loop, so the translated content is \<open>x = 1\<close> alone, it differs from the original, and the
  file is overwritten with it.
\<close>

theorem unterminated_block_dropped:
  "translate_file isalpha_basic failing_backend printing_console
     (single_file (u ''a.py'') (u ''x = 1'' @ [NEWLINE] @ TDQ @ u ''Unterminated'' @ [NEWLINE] @ u ''y = 2''))
     no_effects (u ''a.py'') False =
   (Inr True,
    write_text
      (open_write
         (single_file (u ''a.py'') (u ''x = 1'' @ [NEWLINE] @ TDQ @ u ''Unterminated'' @ [NEWLINE] @ u ''y = 2''))
         (u ''a.py''))
      (u ''a.py'') (u ''x = 1''),
    \<lparr>sent = [], printed = [Translated (u ''a.py'')]\<rparr>)"
  by (simp add: eval_defs file_defs)

text \<open>
  C8. In a dry run the file system is left as it is. Whenever the file system changes,
  the run was not a dry run, the file was read and its translated content differs from
  what was read; the change is the opening of that path for writing, followed by the
  writing of the translated content unless that content cannot be encoded. Outside a dry
  run a translated content that differs and can be encoded is written when the file can
  be opened for writing.
\<close>

theorem write_only_when_changed:
  assumes "translate_file isalpha client console fs fx file_path dry_run = (result, fs', fx')"
  shows "(dry_run \<longrightarrow> fs' = fs) \<and>
         (fs' \<noteq> fs \<longrightarrow> \<not> dry_run \<and>
            (\<exists>content translated. read_file fs file_path = Some content \<and>
               fst (translate_content isalpha client console fx content) = Inr translated \<and>
               translated \<noteq> content \<and>
               (fs' = write_text (open_write fs file_path) file_path translated \<or>
                \<not> encodable translated \<and> fs' = open_write fs file_path))) \<and>
         (\<forall>content translated. \<not> dry_run \<and> read_file fs file_path = Some content \<and>
               fst (translate_content isalpha client console fx content) = Inr translated \<and>
               translated \<noteq> content \<and> \<not> read_only fs file_path \<and> encodable translated \<longrightarrow>
               fs' = write_text (open_write fs file_path) file_path translated)"
proof -
  from assms have fs': "fs' = fst (snd (translate_file isalpha client console fs fx file_path dry_run))"
    by simp
  show ?thesis
    unfolding fs' translate_file_fs
    by (auto split: option.splits sum.splits)
qed

text \<open>
  A dry run over the file \<open># abc\<close>, whose translated content differs from it, writes
  nothing.
\<close>

theorem write_only_when_changed_witness:
  "fst (snd (translate_file isalpha_basic (fixed_backend [0x4F60, 0x597D]) printing_console
       (single_file (u ''a.py'') (u ''# abc'')) no_effects (u ''a.py'') True)) =
   single_file (u ''a.py'') (u ''# abc'') \<and>
   fst (translate_content isalpha_basic (fixed_backend [0x4F60, 0x597D]) printing_console no_effects (u ''# abc'')) =
   Inr (u ''  # '' @ [0x4F60, 0x597D])"
proof -
  let ?X = "translate_file isalpha_basic (fixed_backend [0x4F60, 0x597D]) printing_console
       (single_file (u ''a.py'') (u ''# abc'')) no_effects (u ''a.py'') True"
  have "?X = (fst ?X, fst (snd ?X), snd (snd ?X))" by simp
  from write_only_when_changed[OF this]
  have "fst (snd ?X) = single_file (u ''a.py'') (u ''# abc'')" by simp
  moreover have "fst (translate_content isalpha_basic (fixed_backend [0x4F60, 0x597D]) printing_console
       no_effects (u ''# abc'')) = Inr (u ''  # '' @ [0x4F60, 0x597D])"
    by (simp add: eval_defs translate_content_def)
  ultimately show ?thesis by simp
qed

text \<open>A reply with a surrogate cannot be encoded: the file is left empty and the pass fails.\<close>

lemma unencodable_reply_empties_file:
  "translate_file isalpha_basic (fixed_backend [0xD800]) printing_console
       (single_file (u ''a.py'') (u ''# abc'')) no_effects (u ''a.py'') False =
     (Inr False, open_write (single_file (u ''a.py'') (u ''# abc'')) (u ''a.py''),
      \<lparr>sent = [build_prompt (u ''abc'') (u ''comment'')],
       printed = [Failed (u ''a.py'') UnicodeEncodeError]\<rparr>)"
  by (simp add: eval_defs file_defs)

end
